theory Spec2Isabelle
  imports
    Complex_Main
    "HOL-Library.Multiset"
    "HOL-Library.Sublist"
    "HOL-Library.Char_ord"
    "HOL-Library.List_Lexorder"
begin

section \<open>Data model\<close>

text \<open>
  A pandas DataFrame is modelled column-wise, as the list of its labelled columns in
  column order. The row index is the default \<open>RangeIndex\<close> that \<open>pd.read_csv\<close>
  produces, so a row is a position and two frames with the same number of rows are
  aligned position by position. Column labels are unique, as \<open>read_csv\<close> makes them.

  A numeric cell (dtypes \<open>float64\<close> and \<open>int64\<close>) is \<open>Some x\<close> for a finite number
  and \<open>None\<close> for \<open>NaN\<close>; arithmetic is exact arithmetic on the reals, so rounding
  and the infinities of \<open>float64\<close> are outside the model. A cell of an \<open>object\<close>
  column is a string or missing. Columns of other dtypes (\<open>bool\<close>) are carried along.
\<close>

datatype column =
    NumCol "real option list"
  | ObjCol "string option list"
  | OtherCol "bool list"

type_synonym dataframe = "(string \<times> column) list"

datatype error = ValueError | IndexError

text \<open>The fitted estimate of \<open>KNNImputer\<close> for the missing cell in row \<open>i\<close> of
  feature \<open>j\<close> of the matrix it was fitted on (given as the list of its columns). Which
  neighbours \<open>argpartition\<close> picks among equidistant donors is not fixed by the library,
  so the estimate is a parameter of the model.\<close>

type_synonym knn_estimate = "real option list list \<Rightarrow> nat \<Rightarrow> nat \<Rightarrow> real"

section \<open>Library operations\<close>

text \<open>\<open>dropna\<close>: the values that are not missing, in order.\<close>

definition present :: "'a option list \<Rightarrow> 'a list" where
  "present xs = List.map_filter id xs"

text \<open>Arithmetic and comparison of \<open>float64\<close> values: \<open>NaN\<close> propagates through
  arithmetic, and every comparison with \<open>NaN\<close> is false.\<close>

definition nan_lift2 :: "(real \<Rightarrow> real \<Rightarrow> real) \<Rightarrow> real option \<Rightarrow> real option \<Rightarrow> real option" where
  "nan_lift2 f a b =
     (case a of None \<Rightarrow> None
      | Some x \<Rightarrow> (case b of None \<Rightarrow> None | Some y \<Rightarrow> Some (f x y)))"

definition nan_less :: "real option \<Rightarrow> real option \<Rightarrow> bool" where
  "nan_less a b =
     (case a of None \<Rightarrow> False
      | Some x \<Rightarrow> (case b of None \<Rightarrow> False | Some y \<Rightarrow> x < y))"

text \<open>\<open>Series.quantile(q)\<close> with the default linear interpolation: missing values are
  skipped, the rest is sorted, and the value at the virtual position \<open>q * (n - 1)\<close> is
  interpolated between its two neighbours. An empty series gives \<open>NaN\<close>.\<close>

definition quantile :: "real option list \<Rightarrow> real \<Rightarrow> real option" where
  "quantile xs q =
     (let v = sort (present xs); n = length v in
      if n = 0 then None
      else
        let pos = q * real (n - 1);
            lo = nat \<lfloor>pos\<rfloor>;
            hi = min (lo + 1) (n - 1);
            frac = pos - real lo
        in Some (v ! lo + (v ! hi - v ! lo) * frac))"

text \<open>\<open>Series.mean()\<close>: the mean of the values that are not missing, \<open>NaN\<close> when
  there is none.\<close>

definition mean :: "real option list \<Rightarrow> real option" where
  "mean xs =
     (let v = present xs in
      if v = [] then None else Some (sum_list v / real (length v)))"

text \<open>The population variance (\<open>ddof = 0\<close>) that \<open>StandardScaler\<close> fits, over the
  values that are not missing.\<close>

definition variance :: "real option list \<Rightarrow> real option" where
  "variance xs =
     (case mean xs of
        None \<Rightarrow> None
      | Some mu \<Rightarrow>
          let v = present xs in
          Some (sum_list (map (\<lambda>x. (x - mu)\<^sup>2) v) / real (length v)))"

definition std :: "real option list \<Rightarrow> real option" where
  "std xs = map_option sqrt (variance xs)"

text \<open>\<open>Series.mode()\<close>: the most frequent of the values that are not missing, in
  ascending order (strings compare lexicographically by code point).\<close>

definition mode :: "string option list \<Rightarrow> string list" where
  "mode xs =
     (let v = present xs;
          m = fold max (map (count_list v) v) 0
      in sort (remdups (filter (\<lambda>x. count_list v x = m) v)))"

text \<open>\<open>Series.fillna(value)\<close>: a missing cell takes the value, which may itself be
  missing.\<close>

definition fillna :: "'a option list \<Rightarrow> 'a option \<Rightarrow> 'a option list" where
  "fillna xs v = map (\<lambda>x. case x of None \<Rightarrow> v | Some y \<Rightarrow> Some y) xs"

text \<open>Reading and assigning a column by its label, \<open>data[name]\<close> and
  \<open>data[name] = col\<close> for a label the frame has.\<close>

definition get_col :: "dataframe \<Rightarrow> string \<Rightarrow> column option" where
  "get_col data name = map_of data name"

definition set_col :: "string \<Rightarrow> column \<Rightarrow> dataframe \<Rightarrow> dataframe" where
  "set_col name c data = map (\<lambda>(n, c'). if n = name then (n, c) else (n, c')) data"

text \<open>\<open>data[labels] = frame\<close>: every column of the right-hand side is assigned
  under its label.\<close>

definition assign_cols :: "dataframe \<Rightarrow> dataframe \<Rightarrow> dataframe" where
  "assign_cols new data = fold (\<lambda>(n, c) d. set_col n c d) new data"

section \<open>The preprocessing pipeline\<close>

text \<open>\<open>select_dtypes(include=['float', 'int'])\<close> and
  \<open>select_dtypes(include=['object'])\<close>: the sub-frames of numeric and of categorical
  columns.\<close>

definition numeric_part :: "dataframe \<Rightarrow> (string \<times> real option list) list" where
  "numeric_part data =
     List.map_filter (\<lambda>(n, c). case c of NumCol xs \<Rightarrow> Some (n, xs) | _ \<Rightarrow> None) data"

definition categorical_part :: "dataframe \<Rightarrow> (string \<times> string option list) list" where
  "categorical_part data =
     List.map_filter (\<lambda>(n, c). case c of ObjCol xs \<Rightarrow> Some (n, xs) | _ \<Rightarrow> None) data"

definition numeric_features :: "dataframe \<Rightarrow> string list" where
  "numeric_features data = map fst (numeric_part data)"

definition categorical_features :: "dataframe \<Rightarrow> string list" where
  "categorical_features data = map fst (categorical_part data)"

text \<open>\<open>KNNImputer().fit_transform(X)\<close> on the matrix with columns \<open>X\<close>. The input
  validation rejects a matrix with no feature or no sample. A feature with no observed
  value is dropped from the result; in every other feature the observed cells are kept
  and each missing cell takes the fitted estimate.\<close>

definition knn_fit_transform ::
    "knn_estimate \<Rightarrow> real option list list \<Rightarrow> error + real option list list" where
  "knn_fit_transform est X =
     (if X = [] \<or> hd X = [] then Inl ValueError
      else Inr (map (\<lambda>(j, c). map (\<lambda>(i, x). case x of None \<Rightarrow> Some (est X i j)
                                                      | Some y \<Rightarrow> Some y)
                                     (enumerate 0 c))
                    (filter (\<lambda>(j, c). present c \<noteq> []) (enumerate 0 X))))"

text \<open>\<open>handle_missing_values\<close>: the imputed matrix is wrapped into a frame under
  the labels of the input; the \<open>DataFrame\<close> constructor raises \<open>ValueError\<close> when
  the number of columns of the matrix is not the number of labels.\<close>

definition handle_missing_values ::
    "knn_estimate \<Rightarrow> (string \<times> real option list) list
       \<Rightarrow> error + (string \<times> real option list) list" where
  "handle_missing_values est data =
     (case knn_fit_transform est (map snd data) of
        Inl e \<Rightarrow> Inl e
      | Inr arr \<Rightarrow>
          if length arr \<noteq> length data then Inl ValueError
          else Inr (zip (map fst data) arr))"

text \<open>\<open>data[categorical_features].mode().iloc[0]\<close>: the mode table has one column
  per categorical column, holding its modes in ascending order, and as many rows as the
  longest of them; columns with fewer modes are padded with missing values. Row 0 of a
  table with no row raises \<open>IndexError\<close>.\<close>

definition first_mode :: "string option list \<Rightarrow> string option" where
  "first_mode c = (case mode c of [] \<Rightarrow> None | m # _ \<Rightarrow> Some m)"

definition mode_iloc0 ::
    "(string \<times> string option list) list \<Rightarrow> error + (string \<times> string option) list" where
  "mode_iloc0 cat =
     (if list_all (\<lambda>(n, c). mode c = []) cat then Inl IndexError
      else Inr (map (\<lambda>(n, c). (n, first_mode c)) cat))"

text \<open>\<open>frame.fillna(series)\<close>: each column is filled with the value the series has
  under the column's label.\<close>

definition fillna_frame ::
    "(string \<times> string option list) list \<Rightarrow> (string \<times> string option) list
       \<Rightarrow> (string \<times> string option list) list" where
  "fillna_frame cat fill =
     map (\<lambda>(n, c). (n, case map_of fill n of None \<Rightarrow> c | Some v \<Rightarrow> fillna c v)) cat"

text \<open>The body of the loop over the numeric features, for one column.\<close>

definition replace_outliers :: "real option list \<Rightarrow> real option list" where
  "replace_outliers xs =
     (let Q1 = quantile xs (25 / 100);
          Q3 = quantile xs (75 / 100);
          IQR = nan_lift2 (-) Q3 Q1;
          lower_bound = nan_lift2 (-) Q1 (nan_lift2 (*) (Some (15 / 10)) IQR);
          upper_bound = nan_lift2 (+) Q3 (nan_lift2 (*) (Some (15 / 10)) IQR)
      in map (\<lambda>x. if nan_less x lower_bound \<or> nan_less upper_bound x then mean xs else x) xs)"

fun outlier_loop :: "string list \<Rightarrow> dataframe \<Rightarrow> dataframe" where
  "outlier_loop [] data = data"
| "outlier_loop (feature # rest) data =
     outlier_loop rest
       (case get_col data feature of
          Some (NumCol xs) \<Rightarrow> set_col feature (NumCol (replace_outliers xs)) data
        | _ \<Rightarrow> data)"

text \<open>\<open>StandardScaler().fit_transform\<close> on one feature: the mean and the population
  standard deviation are fitted on the observed values, a zero scale is replaced by 1,
  and missing cells stay missing.\<close>

definition scale_col :: "real option list \<Rightarrow> real option list" where
  "scale_col xs =
     (case mean xs of
        None \<Rightarrow> xs
      | Some mu \<Rightarrow>
          let s = (case std xs of None \<Rightarrow> 1 | Some sd \<Rightarrow> if sd = 0 then 1 else sd)
          in map (map_option (\<lambda>x. (x - mu) / s)) xs)"

definition scaler_fit_transform ::
    "(string \<times> real option list) list \<Rightarrow> error + (string \<times> real option list) list" where
  "scaler_fit_transform X =
     (if X = [] \<or> snd (hd X) = [] then Inl ValueError
      else Inr (map (\<lambda>(n, c). (n, scale_col c)) X))"

definition as_frame :: "(string \<times> 'a) list \<Rightarrow> ('a \<Rightarrow> column) \<Rightarrow> dataframe" where
  "as_frame sub mk = map (\<lambda>(n, c). (n, mk c)) sub"

text \<open>The stages of \<open>data_preprocessing_pipeline\<close>, in the order of the source:
  numeric imputation, categorical filling, outlier replacement, standardization. The
  feature lists are computed once, on the input.\<close>

definition impute_stage :: "knn_estimate \<Rightarrow> dataframe \<Rightarrow> error + dataframe" where
  "impute_stage est data =
     (case handle_missing_values est (numeric_part data) of
        Inl e \<Rightarrow> Inl e
      | Inr imputed \<Rightarrow> Inr (assign_cols (as_frame imputed NumCol) data))"

definition fill_stage :: "dataframe \<Rightarrow> error + dataframe" where
  "fill_stage data =
     (case mode_iloc0 (categorical_part data) of
        Inl e \<Rightarrow> Inl e
      | Inr fill \<Rightarrow>
          Inr (assign_cols (as_frame (fillna_frame (categorical_part data) fill) ObjCol) data))"

definition scale_stage :: "dataframe \<Rightarrow> error + dataframe" where
  "scale_stage data =
     (case scaler_fit_transform (numeric_part data) of
        Inl e \<Rightarrow> Inl e
      | Inr scaled \<Rightarrow> Inr (assign_cols (as_frame scaled NumCol) data))"

definition data_preprocessing_pipeline :: "knn_estimate \<Rightarrow> dataframe \<Rightarrow> error + dataframe" where
  "data_preprocessing_pipeline est data =
     (case impute_stage est data of
        Inl e \<Rightarrow> Inl e
      | Inr d1 \<Rightarrow>
          (case fill_stage d1 of
             Inl e \<Rightarrow> Inl e
           | Inr d2 \<Rightarrow> scale_stage (outlier_loop (numeric_features data) d2)))"

section \<open>The standalone outlier filter\<close>

text \<open>\<open>handle_outliers_iqr\<close> computes with whole frames. \<open>DataFrame.quantile\<close> and the
  comparison of a frame with a series are defined for numeric columns, so the function
  is modelled on frames of numeric columns, such as \<open>data[numeric_features]\<close>. A series
  indexed by the column labels is the list of its labelled values.\<close>

type_synonym numeric_frame = "(string \<times> real option list) list"

type_synonym series = "(string \<times> real option) list"

text \<open>\<open>data.quantile(q)\<close>: the quantile of every column, indexed by the labels.\<close>

definition frame_quantile :: "numeric_frame \<Rightarrow> real \<Rightarrow> series" where
  "frame_quantile data q = map (\<lambda>(n, c). (n, quantile c q)) data"

text \<open>Arithmetic of two series with the same index, and of a number with a series.\<close>

definition series_op :: "(real \<Rightarrow> real \<Rightarrow> real) \<Rightarrow> series \<Rightarrow> series \<Rightarrow> series" where
  "series_op f a b = map (\<lambda>((n, x), (_, y)). (n, nan_lift2 f x y)) (zip a b)"

definition series_scale :: "real \<Rightarrow> series \<Rightarrow> series" where
  "series_scale k a = map (\<lambda>(n, x). (n, nan_lift2 (*) (Some k) x)) a"

text \<open>The value of a series under a label; a label the series lacks gives \<open>NaN\<close>, as
  the alignment of the series with the columns of a frame does.\<close>

definition series_get :: "series \<Rightarrow> string \<Rightarrow> real option" where
  "series_get s n = (case map_of s n of None \<Rightarrow> None | Some v \<Rightarrow> v)"

text \<open>\<open>data < s\<close> and \<open>data > s\<close>: every cell is compared with the value the series
  has under the label of the cell's column.\<close>

definition frame_less :: "numeric_frame \<Rightarrow> series \<Rightarrow> (string \<times> bool list) list" where
  "frame_less data s = map (\<lambda>(n, c). (n, map (\<lambda>x. nan_less x (series_get s n)) c)) data"

definition frame_greater :: "numeric_frame \<Rightarrow> series \<Rightarrow> (string \<times> bool list) list" where
  "frame_greater data s = map (\<lambda>(n, c). (n, map (\<lambda>x. nan_less (series_get s n) x) c)) data"

text \<open>\<open>a | b\<close> on two boolean frames of the same shape and labels.\<close>

definition frame_or ::
    "(string \<times> bool list) list \<Rightarrow> (string \<times> bool list) list \<Rightarrow> (string \<times> bool list) list" where
  "frame_or a b = map (\<lambda>((n, c), (_, d)). (n, map (\<lambda>(x, y). x \<or> y) (zip c d))) (zip a b)"

text \<open>The number of rows of a frame, read off its first column.\<close>

definition nrows :: "(string \<times> 'a list) list \<Rightarrow> nat" where
  "nrows data = (case data of [] \<Rightarrow> 0 | (n, c) # _ \<Rightarrow> length c)"

text \<open>\<open>flags.any(axis=1)\<close>: for every row, whether some column is true there.\<close>

definition any_axis1 :: "(string \<times> bool list) list \<Rightarrow> bool list" where
  "any_axis1 flags = map (\<lambda>i. list_ex (\<lambda>(n, c). c ! i) flags) [0..<nrows flags]"

text \<open>\<open>data[~mask]\<close>: the rows whose mask is false, in order, in every column.\<close>

definition drop_rows :: "(string \<times> 'a list) list \<Rightarrow> bool list \<Rightarrow> (string \<times> 'a list) list" where
  "drop_rows data row_mask =
     map (\<lambda>(n, c). (n, map fst (filter (\<lambda>(x, m). \<not> m) (zip c row_mask)))) data"

definition handle_outliers_iqr :: "numeric_frame \<Rightarrow> real \<Rightarrow> numeric_frame" where
  "handle_outliers_iqr data threshold =
     (let Q1 = frame_quantile data (25 / 100);
          Q3 = frame_quantile data (75 / 100);
          IQR = series_op (-) Q3 Q1;
          lower_bound = series_op (-) Q1 (series_scale threshold IQR);
          upper_bound = series_op (+) Q3 (series_scale threshold IQR)
      in drop_rows data
           (any_axis1 (frame_or (frame_less data lower_bound) (frame_greater data upper_bound))))"


text \<open>The rows of a frame, each the list of its cells in column order, and the
  per-column bounds, for stating what the filter keeps.\<close>

definition rows_of :: "(string \<times> 'a list) list \<Rightarrow> 'a list list" where
  "rows_of data = map (\<lambda>i. map (\<lambda>(n, c). c ! i) data) [0..<nrows data]"


definition rectangular :: "(string \<times> 'a list) list \<Rightarrow> bool" where
  "rectangular data = list_all (\<lambda>(n, c). length c = nrows data) data"

definition row_at :: "(string \<times> 'a list) list \<Rightarrow> nat \<Rightarrow> 'a list" where
  "row_at data i = map (\<lambda>(n, c). c ! i) data"

definition iqr_lower :: "real option list \<Rightarrow> real \<Rightarrow> real option" where
  "iqr_lower c threshold =
     nan_lift2 (-) (quantile c (25 / 100))
       (nan_lift2 (*) (Some threshold)
          (nan_lift2 (-) (quantile c (75 / 100)) (quantile c (25 / 100))))"

definition iqr_upper :: "real option list \<Rightarrow> real \<Rightarrow> real option" where
  "iqr_upper c threshold =
     nan_lift2 (+) (quantile c (75 / 100))
       (nan_lift2 (*) (Some threshold)
          (nan_lift2 (-) (quantile c (75 / 100)) (quantile c (25 / 100))))"

definition out_of_bounds :: "real option list \<Rightarrow> real \<Rightarrow> real option \<Rightarrow> bool" where
  "out_of_bounds c threshold x \<longleftrightarrow>
     nan_less x (iqr_lower c threshold) \<or> nan_less (iqr_upper c threshold) x"


section \<open>The conversion endpoint\<close>

text \<open>An exception is modelled by its message, \<open>str(e)\<close>. The report generator
  \<open>processManager\<close>, the CSV reader and the spreadsheet writer are collaborators of the
  endpoint and parameters of the model: each sheet function mutates the writer and may
  raise, so it returns the writer it leaves behind together with the exception, if any.\<close>

datatype exn = Exn string

type_synonym bytes = "char list"

record upload_file =
  filename :: string
  read :: "exn + bytes"

record ('df, 'w) collaborators =
  decode_utf8 :: "bytes \<Rightarrow> exn + string"
  read_csv :: "string \<Rightarrow> exn + 'df"
  excel_writer :: "'w"
  create_data_sheet :: "'df \<Rightarrow> 'w \<Rightarrow> exn option \<times> 'w"
  create_summary_sheet :: "'df \<Rightarrow> 'w \<Rightarrow> exn option \<times> 'w"
  create_missing_values_graph :: "'df \<Rightarrow> 'w \<Rightarrow> exn option \<times> 'w"
  create_outlier_graphs :: "'df \<Rightarrow> 'w \<Rightarrow> exn option \<times> 'w"
  writer_close :: "'w \<Rightarrow> exn + bytes"

datatype response =
    StreamingResponse nat string "(string \<times> string) list" bytes
  | HTTPException nat string

text \<open>\<open>s.endswith(suf)\<close> and \<open>s.rsplit(sep, 1)\<close>: the string is split at the last
  occurrence of the separator, and left whole when there is none.\<close>

definition endswith :: "string \<Rightarrow> string \<Rightarrow> bool" where
  "endswith s suf = suffix suf s"

definition rsplit1 :: "string \<Rightarrow> char \<Rightarrow> string list" where
  "rsplit1 s sep =
     (if sep \<notin> set s then [s]
      else [rev (tl (dropWhile (\<lambda>c. c \<noteq> sep) (rev s))),
            rev (takeWhile (\<lambda>c. c \<noteq> sep) (rev s))])"

text \<open>Sequencing of statements that may raise: the first exception ends the block.\<close>

definition then_step :: "exn option \<times> 'w \<Rightarrow> ('w \<Rightarrow> exn option \<times> 'w) \<Rightarrow> exn option \<times> 'w" where
  "then_step r f = (case r of (None, w) \<Rightarrow> f w | (Some e, w) \<Rightarrow> (Some e, w))"

text \<open>The \<open>with pd.ExcelWriter(...) as writer\<close> block: the four sheets are written in
  order; leaving the block closes the writer, also when the body raised, and an
  exception of the close replaces the one of the body.\<close>

definition write_sheets :: "('df, 'w) collaborators \<Rightarrow> 'df \<Rightarrow> exn option \<times> 'w" where
  "write_sheets env df =
     then_step (then_step (then_step
       (create_data_sheet env df (excel_writer env))
       (create_summary_sheet env df))
       (create_missing_values_graph env df))
       (create_outlier_graphs env df)"

definition with_excel_writer :: "('df, 'w) collaborators \<Rightarrow> 'df \<Rightarrow> exn + bytes" where
  "with_excel_writer env df =
     (let (raised, writer) = write_sheets env df
      in case writer_close env writer of
           Inl e \<Rightarrow> Inl e
         | Inr excel_file \<Rightarrow> (case raised of Some e \<Rightarrow> Inl e | None \<Rightarrow> Inr excel_file))"

text \<open>The body of the \<open>try\<close> block.\<close>

definition try_body :: "('df, 'w) collaborators \<Rightarrow> upload_file \<Rightarrow> exn + response" where
  "try_body env file =
     (case read file of
        Inl e \<Rightarrow> Inl e
      | Inr contents \<Rightarrow>
     (case decode_utf8 env contents of
        Inl e \<Rightarrow> Inl e
      | Inr text \<Rightarrow>
     (case read_csv env text of
        Inl e \<Rightarrow> Inl e
      | Inr df \<Rightarrow>
     (case with_excel_writer env df of
        Inl e \<Rightarrow> Inl e
      | Inr excel_file \<Rightarrow>
          let excel_filename =
                hd (rsplit1 (filename file) CHR ''.'')
                  @ ''_with_summary_missing_values_and_outliers.xlsx''
          in Inr (StreamingResponse 200
                    ''application/vnd.openxmlformats-officedocument.spreadsheetml.sheet''
                    [(''Content-Disposition'', ''attachment; filename='' @ excel_filename)]
                    excel_file)))))"

definition csv_to_excel_with_description ::
    "('df, 'w) collaborators \<Rightarrow> upload_file \<Rightarrow> response" where
  "csv_to_excel_with_description env file =
     (if \<not> endswith (filename file) ''.csv'' then HTTPException 400 ''Only CSV files are allowed''
      else
        (case try_body env file of
           Inr resp \<Rightarrow> resp
         | Inl (Exn msg) \<Rightarrow> HTTPException 500 (''An error occurred: '' @ msg)))"

section \<open>Notions used in the statements\<close>

text \<open>Applying a function to every numeric, or to every categorical, column of a
  frame and leaving the other columns as they are.\<close>

definition map_numeric :: "(real option list \<Rightarrow> real option list) \<Rightarrow> dataframe \<Rightarrow> dataframe" where
  "map_numeric f data =
     map (\<lambda>(n, c). (n, case c of NumCol xs \<Rightarrow> NumCol (f xs) | _ \<Rightarrow> c)) data"

definition map_categorical ::
    "(string option list \<Rightarrow> string option list) \<Rightarrow> dataframe \<Rightarrow> dataframe" where
  "map_categorical f data =
     map (\<lambda>(n, c). (n, case c of ObjCol xs \<Rightarrow> ObjCol (f xs) | _ \<Rightarrow> c)) data"


text \<open>A column without missing values, and a column without values outside the
  bounds of the pipeline.\<close>

definition complete :: "'a option list \<Rightarrow> bool" where
  "complete xs = list_all (\<lambda>x. x \<noteq> None) xs"

text \<open>A column \<open>ys\<close> that fills the missing cells of \<open>xs\<close> and keeps the others.\<close>

definition filled_from :: "'a option list \<Rightarrow> 'a option list \<Rightarrow> bool" where
  "filled_from xs ys = list_all2 (\<lambda>x y. y \<noteq> None \<and> (x \<noteq> None \<longrightarrow> y = x)) xs ys"

definition in_bounds :: "real option list \<Rightarrow> bool" where
  "in_bounds xs = list_all (\<lambda>x. \<not> out_of_bounds xs (15 / 10) x) xs"

definition clean_numeric :: "dataframe \<Rightarrow> bool" where
  "clean_numeric data = list_all (\<lambda>(n, xs). complete xs \<and> in_bounds xs) (numeric_part data)"

text \<open>Collaborators for the examples: the text is the frame, every sheet function
  appends the frame to the writer, which is the list of the sheets written so far; and
  the same with a summary sheet that raises.\<close>

definition demo_env :: "(string, string list) collaborators" where
  "demo_env =
     \<lparr>decode_utf8 = Inr, read_csv = Inr, excel_writer = [],
      create_data_sheet = (\<lambda>df w. (None, w @ [df])),
      create_summary_sheet = (\<lambda>df w. (None, w @ [df])),
      create_missing_values_graph = (\<lambda>df w. (None, w @ [df])),
      create_outlier_graphs = (\<lambda>df w. (None, w @ [df])),
      writer_close = (\<lambda>w. Inr (concat w))\<rparr>"

definition failing_env :: "(string, string list) collaborators" where
  "failing_env =
     demo_env\<lparr>create_summary_sheet := (\<lambda>df w. (Some (Exn ''no numeric data''), w))\<rparr>"

text \<open>The mode table of the categorical columns has no row: no categorical column has
  a mode.\<close>

definition mode_table_empty :: "dataframe \<Rightarrow> bool" where
  "mode_table_empty data = list_all (\<lambda>(n, c). mode c = []) (categorical_part data)"

text \<open>An estimate for the examples, and a frame with one column of dtype \<open>bool\<close>.\<close>

definition zero_estimate :: knn_estimate where
  "zero_estimate X i j = 0"

definition flags_only :: dataframe where
  "flags_only = [(''flag'', OtherCol [True, False])]"

text \<open>A numeric frame whose row 3 is out of bounds in its first column only.\<close>

definition readings :: numeric_frame where
  "readings = [(''x'', [Some 1, Some 2, Some 3, Some 100, Some 4]),
               (''y'', [Some 10, Some 20, Some 30, Some 40, Some 50])]"

text \<open>A frame without missing values and without values out of bounds, and the frame
  the pipeline returns for it.\<close>

definition tidy :: dataframe where
  "tidy = [(''x'', NumCol [Some 1, Some 3, Some 1, Some 3]),
           (''c'', ObjCol [Some ''a'', Some ''b'', Some ''a'', Some ''a''])]"

definition tidy_scaled :: dataframe where
  "tidy_scaled = [(''x'', NumCol [Some (- 1), Some 1, Some (- 1), Some 1]),
                  (''c'', ObjCol [Some ''a'', Some ''b'', Some ''a'', Some ''a''])]"

text \<open>A frame for the examples, and the same frame after the categorical filling.\<close>

definition sample :: dataframe where
  "sample = [(''x'', NumCol [Some 1, Some 2, Some 3, Some 4, Some 100]),
             (''c'', ObjCol [Some ''a'', Some ''a'', Some ''b'', None, Some ''b''])]"

definition sample_filled :: dataframe where
  "sample_filled = [(''x'', NumCol [Some 1, Some 2, Some 3, Some 4, Some 100]),
             (''c'', ObjCol [Some ''a'', Some ''a'', Some ''b'', Some ''a'', Some ''b''])]"

text \<open>A frame without categorical columns, and a frame whose categorical column is
  entirely missing.\<close>

definition numbers_only :: dataframe where
  "numbers_only = [(''x'', NumCol [Some 1, Some 2, Some 3, Some 4, Some 100])]"

definition all_missing :: dataframe where
  "all_missing = [(''x'', NumCol [Some 1, None]), (''c'', ObjCol [None, None])]"


section \<open>Assignment of columns by label\<close>

lemma set_col_fst: "map fst (set_col n c d) = map fst d"
  by (induction d) (auto simp: set_col_def)

lemma assign_cols_map:
  "distinct (map fst new) \<Longrightarrow>
   assign_cols new data = map (\<lambda>(n, c). (n, case map_of new n of Some c' \<Rightarrow> c' | None \<Rightarrow> c)) data"
proof (induction new arbitrary: data)
  case Nil
  then show ?case by (simp add: assign_cols_def)
next
  case (Cons a new)
  obtain m cm where a: "a = (m, cm)" by (cases a)
  from Cons.prems a have nin: "map_of new m = None" and d: "distinct (map fst new)"
    by (auto simp: map_of_eq_None_iff)
  have "assign_cols (a # new) data = assign_cols new (set_col m cm data)"
    by (simp add: assign_cols_def a)
  also have "\<dots> = map (\<lambda>(n, c). (n, case map_of new n of Some c' \<Rightarrow> c' | None \<Rightarrow> c)) (set_col m cm data)"
    by (rule Cons.IH [OF d])
  also have "\<dots> = map (\<lambda>(n, c). (n, case map_of (a # new) n of Some c' \<Rightarrow> c' | None \<Rightarrow> c)) data"
    using nin by (auto simp: set_col_def a)
  finally show ?case .
qed

lemma outlier_loop_map:
  "distinct fs \<Longrightarrow> distinct (map fst d) \<Longrightarrow>
   outlier_loop fs d =
     map (\<lambda>(n, c). (n, if n \<in> set fs
                        then (case c of NumCol xs \<Rightarrow> NumCol (replace_outliers xs) | _ \<Rightarrow> c)
                        else c)) d"
proof (induction fs arbitrary: d)
  case Nil
  then show ?case by (simp add: case_prod_unfold)
next
  case (Cons f fs)
  let ?step = "case get_col d f of
          Some (NumCol xs) \<Rightarrow> set_col f (NumCol (replace_outliers xs)) d
        | _ \<Rightarrow> d"
  have fst_step: "map fst ?step = map fst d"
    by (auto simp: set_col_fst split: option.splits column.splits)
  have step: "?step = map (\<lambda>(n, c). (n, if n = f
                        then (case c of NumCol xs \<Rightarrow> NumCol (replace_outliers xs) | _ \<Rightarrow> c)
                        else c)) d"
  proof (cases "get_col d f")
    case None
    then have "f \<notin> fst ` set d" by (simp add: get_col_def map_of_eq_None_iff)
    then have "\<forall>p\<in>set d. fst p \<noteq> f" by auto
    then have "map (\<lambda>(n, c). (n, if n = f
                        then (case c of NumCol xs \<Rightarrow> NumCol (replace_outliers xs) | _ \<Rightarrow> c)
                        else c)) d = map id d"
      by (intro map_cong) (auto simp: case_prod_unfold)
    with None show ?thesis by simp
  next
    case (Some c0)
    have uniq: "c = c0" if "(f, c) \<in> set d" for c
      using that Some Cons.prems(2) by (auto simp: get_col_def)
    show ?thesis
    proof (cases "\<exists>xs. c0 = NumCol xs")
      case True
      then obtain xs where c0: "c0 = NumCol xs" by blast
      have "set_col f (NumCol (replace_outliers xs)) d = map (\<lambda>(n, c). (n, if n = f
                        then (case c of NumCol xs \<Rightarrow> NumCol (replace_outliers xs) | _ \<Rightarrow> c)
                        else c)) d"
        unfolding set_col_def
      proof (rule map_cong [OF refl])
        fix p assume p: "p \<in> set d"
        obtain n c where nc: "p = (n, c)" by (cases p)
        show "(case p of (n, c') \<Rightarrow> if n = f then (n, NumCol (replace_outliers xs)) else (n, c')) =
              (case p of (n, c) \<Rightarrow> (n, if n = f
                        then (case c of NumCol xs \<Rightarrow> NumCol (replace_outliers xs) | _ \<Rightarrow> c)
                        else c))"
        proof (cases "n = f")
          case True
          with p nc have "c = NumCol xs" using uniq c0 by simp
          with True nc show ?thesis by simp
        next
          case False
          with nc show ?thesis by simp
        qed
      qed
      with Some c0 show ?thesis by simp
    next
      case False
      then have st: "?step = d" using Some by (cases c0) auto
      have "map (\<lambda>(n, c). (n, if n = f
                        then (case c of NumCol xs \<Rightarrow> NumCol (replace_outliers xs) | _ \<Rightarrow> c)
                        else c)) d = map id d"
      proof (rule map_cong [OF refl])
        fix p assume p: "p \<in> set d"
        obtain n c where nc: "p = (n, c)" by (cases p)
        show "(case p of (n, c) \<Rightarrow> (n, if n = f
                        then (case c of NumCol xs \<Rightarrow> NumCol (replace_outliers xs) | _ \<Rightarrow> c)
                        else c)) = id p"
        proof (cases "n = f")
          case True
          with p nc have "c = c0" using uniq by simp
          with False nc show ?thesis by (cases c0) auto
        next
          case False
          with nc show ?thesis by simp
        qed
      qed
      with st show ?thesis by simp
    qed
  qed
  have "outlier_loop (f # fs) d = outlier_loop fs ?step" by simp
  also have "\<dots> = map (\<lambda>(n, c). (n, if n \<in> set fs
                        then (case c of NumCol xs \<Rightarrow> NumCol (replace_outliers xs) | _ \<Rightarrow> c)
                        else c)) ?step"
    using Cons.prems fst_step by (intro Cons.IH) auto
  also have "\<dots> = map (\<lambda>(n, c). (n, if n \<in> set (f # fs)
                        then (case c of NumCol xs \<Rightarrow> NumCol (replace_outliers xs) | _ \<Rightarrow> c)
                        else c)) d"
    unfolding step using Cons.prems(1) by (auto split: column.splits)
  finally show ?case .
qed

lemma map_filter_fst_subset:
  "fst ` set (List.map_filter (\<lambda>(n, c). map_option (\<lambda>y. (n, h n y)) (sel c)) d) \<subseteq> fst ` set d"
  by (auto simp: List.map_filter_def split: option.splits) force

lemma map_of_map_filter:
  "distinct (map fst d) \<Longrightarrow> (n, c) \<in> set d \<Longrightarrow>
   map_of (List.map_filter (\<lambda>(n, c). map_option (\<lambda>y. (n, h n y)) (sel c)) d) n
     = map_option (h n) (sel c)"
proof (induction d)
  case Nil
  then show ?case by simp
next
  case (Cons a d)
  obtain m c0 where a: "a = (m, c0)" by (cases a)
  show ?case
  proof (cases "(n, c) = (m, c0)")
    case True
    have "n \<notin> fst ` set (List.map_filter (\<lambda>(n, c). map_option (\<lambda>y. (n, h n y)) (sel c)) d)"
      using Cons.prems(1) a True map_filter_fst_subset [of h sel d] by auto
    then have "map_of (List.map_filter (\<lambda>(n, c). map_option (\<lambda>y. (n, h n y)) (sel c)) d) n = None"
      by (simp add: map_of_eq_None_iff)
    with True a show ?thesis
      by (cases "sel c0") (auto simp: List.map_filter_simps)
  next
    case False
    with Cons.prems a have mem: "(n, c) \<in> set d" and ne: "n \<noteq> m" and d: "distinct (map fst d)"
      by (auto simp: rev_image_eqI)
    from Cons.IH [OF d mem] ne a show ?thesis
      by (cases "sel c0") (auto simp: List.map_filter_simps)
  qed
qed

lemma distinct_map_filter_fst:
  "distinct (map fst d) \<Longrightarrow>
   distinct (map fst (List.map_filter (\<lambda>(n, c). map_option (\<lambda>y. (n, h n y)) (sel c)) d))"
proof (induction d)
  case Nil
  then show ?case by (simp add: List.map_filter_simps)
next
  case (Cons a d)
  obtain m c0 where a: "a = (m, c0)" by (cases a)
  have "m \<notin> fst ` set (List.map_filter (\<lambda>(n, c). map_option (\<lambda>y. (n, h n y)) (sel c)) d)"
    using Cons.prems a map_filter_fst_subset [of h sel d] by auto
  with Cons a show ?case
    by (cases "sel c0") (auto simp: List.map_filter_simps)
qed

lemma assign_cols_map_filter:
  assumes "distinct (map fst d)"
  shows "assign_cols (List.map_filter (\<lambda>(n, c). map_option (\<lambda>y. (n, h n y)) (sel c)) d) d
         = map (\<lambda>(n, c). (n, case sel c of Some y \<Rightarrow> h n y | None \<Rightarrow> c)) d"
proof -
  let ?new = "List.map_filter (\<lambda>(n, c). map_option (\<lambda>y. (n, h n y)) (sel c)) d"
  have "assign_cols ?new d = map (\<lambda>(n, c). (n, case map_of ?new n of Some c' \<Rightarrow> c' | None \<Rightarrow> c)) d"
    by (rule assign_cols_map [OF distinct_map_filter_fst [OF assms]])
  also have "\<dots> = map (\<lambda>(n, c). (n, case sel c of Some y \<Rightarrow> h n y | None \<Rightarrow> c)) d"
  proof (rule map_cong [OF refl])
    fix p assume p: "p \<in> set d"
    obtain n c where nc: "p = (n, c)" by (cases p)
    from map_of_map_filter [OF assms, of n c h sel] p nc
    show "(case p of (n, c) \<Rightarrow> (n, case map_of ?new n of Some c' \<Rightarrow> c' | None \<Rightarrow> c))
        = (case p of (n, c) \<Rightarrow> (n, case sel c of Some y \<Rightarrow> h n y | None \<Rightarrow> c))"
      by (cases "sel c") auto
  qed
  finally show ?thesis .
qed

lemma numeric_part_alt:
  "numeric_part d = List.map_filter (\<lambda>(n, c). map_option (\<lambda>y. (n, y)) (case c of NumCol xs \<Rightarrow> Some xs | _ \<Rightarrow> None)) d"
  unfolding numeric_part_def
  by (rule arg_cong [where f = "\<lambda>f. List.map_filter f d"]) (auto split: column.splits)

lemma categorical_part_alt:
  "categorical_part d = List.map_filter (\<lambda>(n, c). map_option (\<lambda>y. (n, y)) (case c of ObjCol xs \<Rightarrow> Some xs | _ \<Rightarrow> None)) d"
  unfolding categorical_part_def
  by (rule arg_cong [where f = "\<lambda>f. List.map_filter f d"]) (auto split: column.splits)

lemma as_frame_map_filter:
  "as_frame (map (\<lambda>(n, y). (n, g n y)) (List.map_filter (\<lambda>(n, c). map_option (\<lambda>y. (n, y)) (sel c)) d)) mk
   = List.map_filter (\<lambda>(n, c). map_option (\<lambda>y. (n, mk (g n y))) (sel c)) d"
  by (induction d) (auto simp: as_frame_def List.map_filter_simps split: option.splits)

lemma assign_numeric:
  assumes "distinct (map fst d)"
  shows "assign_cols (as_frame (map (\<lambda>(n, xs). (n, g n xs)) (numeric_part d)) NumCol) d
         = map (\<lambda>(n, c). (n, case c of NumCol xs \<Rightarrow> NumCol (g n xs) | _ \<Rightarrow> c)) d"
  unfolding numeric_part_alt as_frame_map_filter assign_cols_map_filter [OF assms]
  by (rule map_cong [OF refl]) (auto split: column.splits)

lemma assign_categorical:
  assumes "distinct (map fst d)"
  shows "assign_cols (as_frame (map (\<lambda>(n, xs). (n, g n xs)) (categorical_part d)) ObjCol) d
         = map (\<lambda>(n, c). (n, case c of ObjCol xs \<Rightarrow> ObjCol (g n xs) | _ \<Rightarrow> c)) d"
  unfolding categorical_part_alt as_frame_map_filter assign_cols_map_filter [OF assms]
  by (rule map_cong [OF refl]) (auto split: column.splits)

lemma set_numeric_part: "(n, xs) \<in> set (numeric_part d) \<longleftrightarrow> (n, NumCol xs) \<in> set d"
  by (induction d) (auto simp: numeric_part_def List.map_filter_simps split: column.splits)


lemma distinct_numeric_part: "distinct (map fst d) \<Longrightarrow> distinct (map fst (numeric_part d))"
  unfolding numeric_part_alt by (rule distinct_map_filter_fst)

lemma distinct_categorical_part: "distinct (map fst d) \<Longrightarrow> distinct (map fst (categorical_part d))"
  unfolding categorical_part_alt by (rule distinct_map_filter_fst)

lemma unique_column:
  "distinct (map fst d) \<Longrightarrow> (n, c) \<in> set d \<Longrightarrow> (n, c') \<in> set d \<Longrightarrow> c = c'"
  by (meson eq_key_imp_eq_value)

lemma numeric_features_iff:
  assumes "distinct (map fst d)" "(n, c) \<in> set d"
  shows "n \<in> set (numeric_features d) \<longleftrightarrow> (\<exists>xs. c = NumCol xs)"
proof
  assume "n \<in> set (numeric_features d)"
  then obtain xs where "(n, xs) \<in> set (numeric_part d)"
    by (auto simp: numeric_features_def)
  then have "(n, NumCol xs) \<in> set d" by (simp add: set_numeric_part)
  with assms show "\<exists>xs. c = NumCol xs" by (blast dest: unique_column)
next
  assume "\<exists>xs. c = NumCol xs"
  then obtain xs where "c = NumCol xs" ..
  with assms(2) have "(n, xs) \<in> set (numeric_part d)" by (simp add: set_numeric_part)
  then show "n \<in> set (numeric_features d)" by (force simp: numeric_features_def)
qed

lemma outlier_loop_numeric:
  assumes "distinct (map fst d)"
  shows "outlier_loop (numeric_features d) d = map_numeric replace_outliers d"
proof -
  have "distinct (numeric_features d)"
    unfolding numeric_features_def by (rule distinct_numeric_part [OF assms])
  then have "outlier_loop (numeric_features d) d =
     map (\<lambda>(n, c). (n, if n \<in> set (numeric_features d)
                        then (case c of NumCol xs \<Rightarrow> NumCol (replace_outliers xs) | _ \<Rightarrow> c)
                        else c)) d"
    using assms by (rule outlier_loop_map)
  also have "\<dots> = map_numeric replace_outliers d"
    unfolding map_numeric_def
  proof (rule map_cong [OF refl])
    fix p assume p: "p \<in> set d"
    obtain n c where nc: "p = (n, c)" by (cases p)
    from numeric_features_iff [OF assms, of n c] p nc
    show "(case p of (n, c) \<Rightarrow> (n, if n \<in> set (numeric_features d)
                        then (case c of NumCol xs \<Rightarrow> NumCol (replace_outliers xs) | _ \<Rightarrow> c)
                        else c))
        = (case p of (n, c) \<Rightarrow> (n, case c of NumCol xs \<Rightarrow> NumCol (replace_outliers xs) | _ \<Rightarrow> c))"
      by (cases c) auto
  qed
  finally show ?thesis .
qed

text \<open>How the parts of a frame change under a column-wise map.\<close>

lemma numeric_part_map:
  "numeric_part (map (\<lambda>(n, c). (n, case c of NumCol xs \<Rightarrow> NumCol (g n xs) | _ \<Rightarrow> c)) d)
     = map (\<lambda>(n, xs). (n, g n xs)) (numeric_part d)"
  by (induction d) (auto simp: numeric_part_def List.map_filter_simps split: column.splits)

lemma categorical_part_map:
  "categorical_part (map (\<lambda>(n, c). (n, case c of NumCol xs \<Rightarrow> NumCol (g n xs) | _ \<Rightarrow> c)) d)
     = categorical_part d"
  by (induction d) (auto simp: categorical_part_def List.map_filter_simps split: column.splits)

lemma numeric_part_map_numeric:
  "numeric_part (map_numeric f d) = map (\<lambda>(n, xs). (n, f xs)) (numeric_part d)"
  unfolding map_numeric_def by (rule numeric_part_map)

lemma numeric_part_map_categorical: "numeric_part (map_categorical f d) = numeric_part d"
  by (induction d)
    (auto simp: map_categorical_def numeric_part_def List.map_filter_simps split: column.splits)


lemma fst_map_categorical: "map fst (map_categorical f d) = map fst d"
  by (induction d) (auto simp: map_categorical_def)

lemma numeric_features_map_numeric: "numeric_features (map_numeric f d) = numeric_features d"
  by (simp add: numeric_features_def numeric_part_map_numeric case_prod_unfold comp_def)

lemma numeric_features_map_categorical:
  "numeric_features (map_categorical f d) = numeric_features d"
  by (simp add: numeric_features_def numeric_part_map_categorical)

text \<open>The stages as column-wise maps.\<close>

lemma fillna_frame_first_mode:
  assumes "distinct (map fst cat)"
  shows "fillna_frame cat (map (\<lambda>(n, c). (n, first_mode c)) cat)
         = map (\<lambda>(n, c). (n, fillna c (first_mode c))) cat"
  unfolding fillna_frame_def
proof (rule map_cong [OF refl])
  fix p assume p: "p \<in> set cat"
  obtain n c where nc: "p = (n, c)" by (cases p)
  have "map_of cat n = Some c" using assms p nc by simp
  then have "map_of (map (\<lambda>(n, c). (n, first_mode c)) cat) n = Some (first_mode c)"
    by (simp add: map_of_map)
  with nc show "(case p of (n, c) \<Rightarrow>
          (n, case map_of (map (\<lambda>(n, c). (n, first_mode c)) cat) n of None \<Rightarrow> c
              | Some v \<Rightarrow> fillna c v))
      = (case p of (n, c) \<Rightarrow> (n, fillna c (first_mode c)))"
    by simp
qed

lemma fill_stage_eq:
  assumes "distinct (map fst d)"
  shows "fill_stage d =
     (if list_all (\<lambda>(n, c). mode c = []) (categorical_part d) then Inl IndexError
      else Inr (map_categorical (\<lambda>xs. fillna xs (first_mode xs)) d))"
  using assign_categorical [OF assms, of "\<lambda>n xs. fillna xs (first_mode xs)"]
  by (simp add: fill_stage_def mode_iloc0_def map_categorical_def
      fillna_frame_first_mode [OF distinct_categorical_part [OF assms]])

lemma scale_stage_eq:
  assumes "distinct (map fst d)"
  shows "scale_stage d =
     (if numeric_part d = [] \<or> snd (hd (numeric_part d)) = [] then Inl ValueError
      else Inr (map_numeric scale_col d))"
  using assign_numeric [OF assms, of "\<lambda>n xs. scale_col xs"]
  by (simp add: scale_stage_def scaler_fit_transform_def map_numeric_def)


section \<open>The conversion endpoint\<close>



lemma try_body_Inl_iff:
  "try_body env file = Inl e \<longleftrightarrow>
     read file = Inl e
     \<or> (\<exists>contents. read file = Inr contents
          \<and> (decode_utf8 env contents = Inl e
             \<or> (\<exists>text. decode_utf8 env contents = Inr text
                  \<and> (read_csv env text = Inl e
                     \<or> (\<exists>df. read_csv env text = Inr df \<and> with_excel_writer env df = Inl e)))))"
  by (auto simp: try_body_def Let_def split: sum.splits)

lemma with_excel_writer_raised:
  "fst (write_sheets env df) = Some e \<Longrightarrow>
   with_excel_writer env df =
     Inl (case writer_close env (snd (write_sheets env df)) of Inl e' \<Rightarrow> e' | Inr _ \<Rightarrow> e)"
  by (cases "write_sheets env df") (auto simp: with_excel_writer_def split: sum.splits)



text \<open>C8: once the file name has passed the check, an exception of the \<open>try\<close>
  block, raised by reading, decoding, parsing, a sheet function or the close of the
  writer, is answered with status 500 and the detail \<open>An error occurred: \<close> followed by
  the message of the exception; the answer is then never a spreadsheet.\<close>

theorem csv_to_excel_exception_is_500:
  "endswith (filename file) ''.csv'' \<longrightarrow>
     (\<forall>msg. try_body env file = Inl (Exn msg) \<longrightarrow>
        csv_to_excel_with_description env file
          = HTTPException 500 (''An error occurred: '' @ msg))
     \<and> (\<forall>e. try_body env file = Inl e \<longleftrightarrow>
          read file = Inl e
          \<or> (\<exists>contents. read file = Inr contents
               \<and> (decode_utf8 env contents = Inl e
                  \<or> (\<exists>text. decode_utf8 env contents = Inr text
                       \<and> (read_csv env text = Inl e
                          \<or> (\<exists>df. read_csv env text = Inr df
                               \<and> with_excel_writer env df = Inl e))))))
     \<and> (\<forall>df e. fst (write_sheets env df) = Some e \<longrightarrow>
          with_excel_writer env df =
            Inl (case writer_close env (snd (write_sheets env df)) of
                   Inl e' \<Rightarrow> e' | Inr _ \<Rightarrow> e))
     \<and> (\<forall>df e. writer_close env (snd (write_sheets env df)) = Inl e \<longrightarrow>
          with_excel_writer env df = Inl e)"
proof (intro impI conjI allI)
  fix msg
  assume "endswith (filename file) ''.csv''" "try_body env file = Inl (Exn msg)"
  then show "csv_to_excel_with_description env file
          = HTTPException 500 (''An error occurred: '' @ msg)"
    by (simp add: csv_to_excel_with_description_def)
next
  fix e
  show "try_body env file = Inl e \<longleftrightarrow>
          read file = Inl e
          \<or> (\<exists>contents. read file = Inr contents
               \<and> (decode_utf8 env contents = Inl e
                  \<or> (\<exists>text. decode_utf8 env contents = Inr text
                       \<and> (read_csv env text = Inl e
                          \<or> (\<exists>df. read_csv env text = Inr df
                               \<and> with_excel_writer env df = Inl e)))))"
    by (rule try_body_Inl_iff)
next
  fix df e
  assume "fst (write_sheets env df) = Some e"
  then show "with_excel_writer env df =
            Inl (case writer_close env (snd (write_sheets env df)) of
                   Inl e' \<Rightarrow> e' | Inr _ \<Rightarrow> e)"
    by (rule with_excel_writer_raised)
next
  fix df e
  assume "writer_close env (snd (write_sheets env df)) = Inl e"
  then show "with_excel_writer env df = Inl e"
    by (cases "write_sheets env df") (simp add: with_excel_writer_def)
qed

theorem csv_to_excel_exception_is_500_witness:
  "endswith ''sales.csv'' ''.csv''
   \<and> try_body failing_env \<lparr>filename = ''sales.csv'', read = Inr ''a,b''\<rparr>
       = Inl (Exn ''no numeric data'')
   \<and> csv_to_excel_with_description failing_env \<lparr>filename = ''sales.csv'', read = Inr ''a,b''\<rparr>
       = HTTPException 500 ''An error occurred: no numeric data''"
proof -
  have e: "endswith (filename \<lparr>filename = ''sales.csv'', read = Inr ''a,b''\<rparr>) ''.csv''"
    by (simp add: endswith_def suffix_def)
  have t: "try_body failing_env \<lparr>filename = ''sales.csv'', read = Inr ''a,b''\<rparr>
       = Inl (Exn ''no numeric data'')"
    by (simp add: try_body_def failing_env_def demo_env_def with_excel_writer_def
        write_sheets_def then_step_def)
  from csv_to_excel_exception_is_500
        [of "\<lparr>filename = ''sales.csv'', read = Inr ''a,b''\<rparr>" failing_env] e t
  have "csv_to_excel_with_description failing_env \<lparr>filename = ''sales.csv'', read = Inr ''a,b''\<rparr>
       = HTTPException 500 (''An error occurred: '' @ ''no numeric data'')"
    by blast
  with e t show ?thesis by simp
qed

section \<open>The imputation stage\<close>

lemma filter_length_eq: "length (filter P xs) = length xs \<Longrightarrow> filter P xs = xs"
  by (metis filter_True length_filter_less less_irrefl)

lemma knn_col_filled:
  "filled_from c (map (\<lambda>(i, x). case x of None \<Rightarrow> Some (e i) | Some y \<Rightarrow> Some y) (enumerate k c))"
  by (induction c arbitrary: k) (auto simp: filled_from_def split: option.splits)

lemma knn_col_complete:
  "complete c \<Longrightarrow>
   map (\<lambda>(i, x). case x of None \<Rightarrow> Some (e i) | Some y \<Rightarrow> Some y) (enumerate k c) = c"
  by (induction c arbitrary: k) (auto simp: complete_def)

lemma knn_fit_transform_Inr:
  assumes "knn_fit_transform est X = Inr arr" "length arr = length X"
  shows "X \<noteq> [] \<and> hd X \<noteq> [] \<and> (\<forall>j<length X. filled_from (X ! j) (arr ! j))"
proof -
  let ?f = "\<lambda>(j, c). map (\<lambda>(i, x). case x of None \<Rightarrow> Some (est X i j) | Some y \<Rightarrow> Some y)
                                     (enumerate 0 c)"
  let ?P = "\<lambda>(j :: nat, c :: real option list). present c \<noteq> []"
  from assms(1) have ne: "X \<noteq> []" "hd X \<noteq> []"
    and arr: "arr = map ?f (filter ?P (enumerate 0 X))"
    by (auto simp: knn_fit_transform_def split: if_splits)
  from arr assms(2) have "length (filter ?P (enumerate 0 X)) = length (enumerate 0 X)" by simp
  then have "filter ?P (enumerate 0 X) = enumerate 0 X" by (rule filter_length_eq)
  with arr have arr': "arr = map ?f (enumerate 0 X)" by simp
  have "filled_from (X ! j) (arr ! j)" if "j < length X" for j
    using that by (simp add: arr' nth_enumerate_eq knn_col_filled)
  with ne show ?thesis by simp
qed

lemma knn_fit_transform_complete:
  assumes "X \<noteq> []" "\<forall>c\<in>set X. c \<noteq> [] \<and> complete c"
  shows "knn_fit_transform est X = Inr X"
proof -
  let ?f = "\<lambda>(j, c). map (\<lambda>(i, x). case x of None \<Rightarrow> Some (est X i j) | Some y \<Rightarrow> Some y)
                                     (enumerate 0 c)"
  let ?P = "\<lambda>(j :: nat, c :: real option list). present c \<noteq> []"
  have pres: "present c \<noteq> []" if "c \<in> set X" for c
  proof -
    from assms(2) that have "c \<noteq> []" "complete c" by auto
    then show ?thesis
      by (cases c) (auto simp: present_def complete_def List.map_filter_simps)
  qed
  have "\<forall>p\<in>set (enumerate 0 X). ?P p"
    using pres by (auto simp: in_set_enumerate_eq)
  then have f: "filter ?P (enumerate 0 X) = enumerate 0 X" by simp
  have "map ?f (enumerate 0 X) = map snd (enumerate 0 X)"
  proof (rule map_cong [OF refl])
    fix p assume "p \<in> set (enumerate 0 X)"
    then have "fst p < length X" "X ! fst p = snd p" by (auto simp: in_set_enumerate_eq)
    then have "snd p \<in> set X" using nth_mem [of "fst p" X] by simp
    with assms(2) have "complete (snd p)" by auto
    then show "?f p = snd p" by (cases p) (simp add: knn_col_complete)
  qed
  then have "map ?f (enumerate 0 X) = X" by simp
  moreover have "hd X \<noteq> []" using assms by (cases X) auto
  ultimately show ?thesis using assms(1) f by (simp add: knn_fit_transform_def)
qed

lemma impute_stage_Inr:
  assumes dist: "distinct (map fst data)" and ok: "impute_stage est data = Inr d1"
  shows "\<exists>g. d1 = map (\<lambda>(n, c). (n, case c of NumCol xs \<Rightarrow> NumCol (g n xs) | _ \<Rightarrow> c)) data
           \<and> (\<forall>n xs. (n, NumCol xs) \<in> set data \<longrightarrow> filled_from xs (g n xs))
           \<and> numeric_part data \<noteq> [] \<and> snd (hd (numeric_part data)) \<noteq> []"
proof -
  let ?np = "numeric_part data"
  from ok obtain imputed where hm: "handle_missing_values est ?np = Inr imputed"
    and d1: "d1 = assign_cols (as_frame imputed NumCol) data"
    by (auto simp: impute_stage_def split: sum.splits)
  from hm obtain arr where knn: "knn_fit_transform est (map snd ?np) = Inr arr"
    and len: "length arr = length ?np" and imp: "imputed = zip (map fst ?np) arr"
    by (auto simp: handle_missing_values_def split: sum.splits if_splits)
  from knn_fit_transform_Inr [OF knn] len
  have ne: "map snd ?np \<noteq> []" "hd (map snd ?np) \<noteq> []"
    and fill: "\<And>j. j < length ?np \<Longrightarrow> filled_from (snd (?np ! j)) (arr ! j)"
    by auto
  have fst_imp: "map fst imputed = map fst ?np" using imp len by simp
  have dnp: "distinct (map fst ?np)" by (rule distinct_numeric_part [OF dist])
  define g where "g n xs = (case map_of imputed n of Some ys \<Rightarrow> ys | None \<Rightarrow> xs)" for n xs
  have gj: "g (fst (?np ! j)) xs = arr ! j" if "j < length ?np" for j xs
  proof -
    have "imputed ! j = (fst (?np ! j), arr ! j)" using that imp len by simp
    moreover have "j < length imputed" using that imp len by simp
    ultimately have "(fst (?np ! j), arr ! j) \<in> set imputed"
      using nth_mem [of j imputed] by simp
    then have "map_of imputed (fst (?np ! j)) = Some (arr ! j)"
      using dnp fst_imp by simp
    then show ?thesis by (simp add: g_def)
  qed
  have imp_map: "imputed = map (\<lambda>(n, xs). (n, g n xs)) ?np"
  proof (rule nth_equalityI)
    show "length imputed = length (map (\<lambda>(n, xs). (n, g n xs)) ?np)" using imp len by simp
  next
    fix j assume "j < length imputed"
    then have j: "j < length ?np" using imp len by simp
    then have "imputed ! j = (fst (?np ! j), arr ! j)" using imp len by simp
    also have "\<dots> = (fst (?np ! j), g (fst (?np ! j)) (snd (?np ! j)))" using gj [OF j] by simp
    finally show "imputed ! j = map (\<lambda>(n, xs). (n, g n xs)) ?np ! j"
      using j by (simp add: case_prod_unfold)
  qed
  have "d1 = map (\<lambda>(n, c). (n, case c of NumCol xs \<Rightarrow> NumCol (g n xs) | _ \<Rightarrow> c)) data"
    unfolding d1 imp_map by (rule assign_numeric [OF dist])
  moreover have "filled_from xs (g n xs)" if "(n, NumCol xs) \<in> set data" for n xs
  proof -
    from that have "(n, xs) \<in> set ?np" by (simp add: set_numeric_part)
    then obtain j where j: "j < length ?np" "?np ! j = (n, xs)" by (auto simp: in_set_conv_nth)
    with fill [of j] gj [of j xs] show ?thesis by simp
  qed
  moreover have "?np \<noteq> []" using ne by simp
  moreover have "snd (hd ?np) \<noteq> []" using ne by (simp add: hd_map)
  ultimately show ?thesis by blast
qed

lemma impute_stage_complete:
  assumes dist: "distinct (map fst data)" and ne: "numeric_part data \<noteq> []"
    and ok: "\<forall>(n, xs)\<in>set (numeric_part data). xs \<noteq> [] \<and> complete xs"
  shows "impute_stage est data = Inr data"
proof -
  let ?np = "numeric_part data"
  have "knn_fit_transform est (map snd ?np) = Inr (map snd ?np)"
    using ne ok by (intro knn_fit_transform_complete) auto
  then have "handle_missing_values est ?np = Inr ?np"
    by (simp add: handle_missing_values_def zip_map_fst_snd)
  moreover have "assign_cols (as_frame ?np NumCol) data = data"
  proof -
    have "assign_cols (as_frame (map (\<lambda>(n, xs). (n, xs)) ?np) NumCol) data
          = map (\<lambda>(n, c). (n, case c of NumCol xs \<Rightarrow> NumCol xs | _ \<Rightarrow> c)) data"
      by (rule assign_numeric [OF dist])
    also have "\<dots> = map id data"
      by (rule map_cong [OF refl]) (auto split: column.splits)
    finally show ?thesis by simp
  qed
  ultimately show ?thesis by (simp add: impute_stage_def)
qed

section \<open>The outlier replacement stage\<close>

lemma fst_map_labelled:
  "map fst (map (\<lambda>(n, c). (n, h n c)) d) = map fst d"
  by (induction d) auto

lemma impute_stage_labels:
  assumes "distinct (map fst data)" "impute_stage est data = Inr d1"
  shows "map fst d1 = map fst data" "numeric_features d1 = numeric_features data"
    "categorical_part d1 = categorical_part data"
proof -
  from impute_stage_Inr [OF assms] obtain g where
    d1: "d1 = map (\<lambda>(n, c). (n, case c of NumCol xs \<Rightarrow> NumCol (g n xs) | _ \<Rightarrow> c)) data"
    by blast
  show "map fst d1 = map fst data" unfolding d1 by (rule fst_map_labelled)
  show "numeric_features d1 = numeric_features data"
    unfolding d1 numeric_features_def numeric_part_map by (simp add: case_prod_unfold comp_def)
  show "categorical_part d1 = categorical_part data"
    unfolding d1 by (rule categorical_part_map)
qed

lemma fill_stage_labels:
  assumes "distinct (map fst d1)" "fill_stage d1 = Inr d2"
  shows "map fst d2 = map fst d1" "numeric_features d2 = numeric_features d1"
    "numeric_part d2 = numeric_part d1"
proof -
  from assms have d2: "d2 = map_categorical (\<lambda>xs. fillna xs (first_mode xs)) d1"
    by (simp add: fill_stage_eq split: if_splits)
  show "map fst d2 = map fst d1" unfolding d2 by (rule fst_map_categorical)
  show "numeric_features d2 = numeric_features d1"
    unfolding d2 by (rule numeric_features_map_categorical)
  show "numeric_part d2 = numeric_part d1"
    unfolding d2 by (rule numeric_part_map_categorical)
qed

lemma replace_outliers_eq:
  "replace_outliers xs = map (\<lambda>x. if out_of_bounds xs (15 / 10) x then mean xs else x) xs"
  by (simp add: replace_outliers_def out_of_bounds_def iqr_lower_def iqr_upper_def Let_def)

lemma outlier_stage_eq:
  assumes "distinct (map fst data)" "impute_stage est data = Inr d1" "fill_stage d1 = Inr d2"
  shows "outlier_loop (numeric_features data) d2 = map_numeric replace_outliers d2"
proof -
  have d1: "distinct (map fst d1)" using impute_stage_labels(1) [OF assms(1,2)] assms(1) by simp
  then have d2: "distinct (map fst d2)" using fill_stage_labels(1) [OF d1 assms(3)] by simp
  have "numeric_features data = numeric_features d2"
    using impute_stage_labels(2) [OF assms(1,2)] fill_stage_labels(2) [OF d1 assms(3)] by simp
  then show ?thesis using outlier_loop_numeric [OF d2] by simp
qed

lemma example_quantiles:
  "quantile [Some 1, Some 2, Some 3, Some 4, Some 100] (25 / 100) = Some 2"
  "quantile [Some 1, Some 2, Some 3, Some 4, Some 100] (75 / 100) = Some 4"
  by (simp_all add: quantile_def present_def List.map_filter_simps Let_def)

lemma example_mean: "mean [Some 1, Some 2, Some 3, Some 4, Some 100] = Some 22"
  by (simp add: mean_def present_def List.map_filter_simps)

lemma example_bounds:
  "iqr_lower [Some 1, Some 2, Some 3, Some 4, Some 100] (15 / 10) = Some (- 1)"
  "iqr_upper [Some 1, Some 2, Some 3, Some 4, Some 100] (15 / 10) = Some 7"
  unfolding iqr_lower_def iqr_upper_def example_quantiles by (simp_all add: nan_lift2_def)

lemma example_replace:
  "replace_outliers [Some 1, Some 2, Some 3, Some 4, Some 100]
     = [Some 1, Some 2, Some 3, Some 4, Some 22]"
  unfolding replace_outliers_eq out_of_bounds_def example_bounds example_mean
  by (simp add: nan_less_def)

text \<open>C1: when the pipeline reaches the outlier loop, the loop rewrites every numeric
  column \<open>xs\<close> cell by cell: a cell below \<open>Q1 - 1.5 * IQR\<close> or above
  \<open>Q3 + 1.5 * IQR\<close> becomes the mean of \<open>xs\<close> itself, the column as it was before
  the replacement with its outliers, every other cell stays, and so do the columns that
  are not numeric. For the column 1, 2, 3, 4, 100 the quartiles are 2 and 4, the bounds
  are -1 and 7, the mean is 22, and only 100 is replaced, by 22.\<close>

theorem outlier_stage_replaces_by_column_mean:
  assumes "distinct (map fst data)" "impute_stage est data = Inr d1" "fill_stage d1 = Inr d2"
  shows "outlier_loop (numeric_features data) d2
           = map_numeric (\<lambda>xs. map (\<lambda>x. if out_of_bounds xs (15 / 10) x then mean xs else x) xs) d2
         \<and> quantile [Some 1, Some 2, Some 3, Some 4, Some 100] (25 / 100) = Some 2
         \<and> quantile [Some 1, Some 2, Some 3, Some 4, Some 100] (75 / 100) = Some 4
         \<and> iqr_lower [Some 1, Some 2, Some 3, Some 4, Some 100] (15 / 10) = Some (- 1)
         \<and> iqr_upper [Some 1, Some 2, Some 3, Some 4, Some 100] (15 / 10) = Some 7
         \<and> mean [Some 1, Some 2, Some 3, Some 4, Some 100] = Some 22
         \<and> replace_outliers [Some 1, Some 2, Some 3, Some 4, Some 100]
             = [Some 1, Some 2, Some 3, Some 4, Some 22]"
proof -
  have "replace_outliers
        = (\<lambda>xs. map (\<lambda>x. if out_of_bounds xs (15 / 10) x then mean xs else x) xs)"
    by (rule ext) (rule replace_outliers_eq)
  then have "map_numeric replace_outliers d2
        = map_numeric (\<lambda>xs. map (\<lambda>x. if out_of_bounds xs (15 / 10) x then mean xs else x) xs) d2"
    by simp
  then have "outlier_loop (numeric_features data) d2
           = map_numeric (\<lambda>xs. map (\<lambda>x. if out_of_bounds xs (15 / 10) x then mean xs else x) xs) d2"
    using outlier_stage_eq [OF assms] by simp
  then show ?thesis
    using example_quantiles example_bounds example_mean example_replace by simp
qed

lemma sample_impute: "impute_stage est sample = Inr sample"
  by (simp add: impute_stage_def sample_def numeric_part_def List.map_filter_simps
      handle_missing_values_def knn_fit_transform_def present_def as_frame_def assign_cols_def
      set_col_def enumerate_eq_zip upt_rec)

lemma sample_mode:  "mode [Some ''a'', Some ''a'', Some ''b'', None, Some ''b''] = [''a'', ''b'']"
  by (simp add: mode_def present_def List.map_filter_simps Let_def)

lemma sample_fill: "fill_stage sample = Inr sample_filled"
  by (simp add: fill_stage_def sample_def sample_filled_def categorical_part_def List.map_filter_simps
      mode_iloc0_def first_mode_def sample_mode fillna_frame_def fillna_def as_frame_def assign_cols_def
      set_col_def)

theorem outlier_stage_replaces_by_column_mean_witness:
  "distinct (map fst sample) \<and> impute_stage (\<lambda>X i j. 0) sample = Inr sample
   \<and> fill_stage sample = Inr sample_filled
   \<and> outlier_loop (numeric_features sample) sample_filled
       = [(''x'', NumCol [Some 1, Some 2, Some 3, Some 4, Some 22]),
          (''c'', ObjCol [Some ''a'', Some ''a'', Some ''b'', Some ''a'', Some ''b''])]"
proof -
  have d: "distinct (map fst sample)" by (simp add: sample_def)
  have r: "(\<lambda>xs. map (\<lambda>x. if out_of_bounds xs (15 / 10) x then mean xs else x) xs)
           = replace_outliers"
    by (rule ext) (simp add: replace_outliers_eq)
  from outlier_stage_replaces_by_column_mean [OF d sample_impute [of "\<lambda>X i j. 0"] sample_fill]
  have "outlier_loop (numeric_features sample) sample_filled
           = map_numeric (\<lambda>xs. map (\<lambda>x. if out_of_bounds xs (15 / 10) x then mean xs else x) xs)
               sample_filled"
    by blast
  also have "\<dots> = [(''x'', NumCol [Some 1, Some 2, Some 3, Some 4, Some 22]),
          (''c'', ObjCol [Some ''a'', Some ''a'', Some ''b'', Some ''a'', Some ''b''])]"
    unfolding r by (simp add: map_numeric_def sample_filled_def example_replace)
  finally show ?thesis using d sample_impute [of "\<lambda>X i j. 0"] sample_fill by simp
qed

section \<open>The categorical filling stage\<close>

lemma fold_max_ge: "(a :: nat) \<le> fold max ys a"
  by (induction ys arbitrary: a) (auto intro: order_trans [OF max.cobounded2])

lemma fold_max_upper: "y \<in> set ys \<Longrightarrow> (y :: nat) \<le> fold max ys a"
proof (induction ys arbitrary: a)
  case Nil
  then show ?case by simp
next
  case (Cons z ys)
  show ?case
  proof (cases "y = z")
    case True
    have "max z a \<le> fold max ys (max z a)" by (rule fold_max_ge)
    with True show ?thesis by simp
  next
    case False
    with Cons show ?thesis by simp
  qed
qed

lemma fold_max_mem: "fold max ys (a :: nat) = a \<or> fold max ys a \<in> set ys"
proof (induction ys arbitrary: a)
  case Nil
  then show ?case by simp
next
  case (Cons z ys)
  from Cons.IH [of "max z a"] show ?case by (auto simp: max_def split: if_splits)
qed

lemma count_list_pos: "x \<in> set v \<Longrightarrow> 0 < count_list v x"
  by (induction v) auto

lemma mode_set:
  "set (mode xs) = {x \<in> set (present xs).
      count_list (present xs) x = fold max (map (count_list (present xs)) (present xs)) 0}"
  by (auto simp: mode_def Let_def)

lemma mode_sorted: "sorted (mode xs)"
  by (simp add: mode_def Let_def)

lemma count_le_max:
  "count_list v w \<le> fold max (map (count_list v) v) 0"
proof (cases "w \<in> set v")
  case True
  then show ?thesis by (intro fold_max_upper) simp
next
  case False
  then show ?thesis by (simp add: count_list_0_iff)
qed

lemma mode_nonempty: "present xs \<noteq> [] \<Longrightarrow> mode xs \<noteq> []"
proof -
  assume ne: "present xs \<noteq> []"
  let ?v = "present xs"
  let ?m = "fold max (map (count_list ?v) ?v) 0"
  from ne obtain w where w: "w \<in> set ?v" by (cases ?v) auto
  then have "0 < count_list ?v w" by (rule count_list_pos)
  with count_le_max [of ?v w] have "?m \<noteq> 0" by simp
  with fold_max_mem [of "map (count_list ?v) ?v" 0]
  have "?m \<in> set (map (count_list ?v) ?v)" by blast
  then obtain x where "x \<in> set ?v" "count_list ?v x = ?m" by auto
  then have "x \<in> set (mode xs)" by (simp add: mode_set)
  then show ?thesis by auto
qed

lemma mode_empty_iff: "mode xs = [] \<longleftrightarrow> present xs = []"
proof
  show "mode xs = [] \<Longrightarrow> present xs = []" using mode_nonempty by blast
  show "present xs = [] \<Longrightarrow> mode xs = []" by (simp add: mode_def)
qed

lemma first_mode_is_mode:
  assumes "present xs \<noteq> []"
  shows "\<exists>m. first_mode xs = Some m \<and> m \<in> set (present xs)
           \<and> (\<forall>w. count_list (present xs) w \<le> count_list (present xs) m)
           \<and> (\<forall>w. count_list (present xs) w = count_list (present xs) m \<longrightarrow> m \<le> w)"
proof -
  let ?v = "present xs"
  let ?m = "fold max (map (count_list ?v) ?v) 0"
  from mode_nonempty [OF assms] obtain m ms where ms: "mode xs = m # ms" by (cases "mode xs") auto
  then have fm: "first_mode xs = Some m" by (simp add: first_mode_def)
  have "m \<in> set (mode xs)" using ms by simp
  then have mem: "m \<in> set ?v" and cnt: "count_list ?v m = ?m" by (simp_all add: mode_set)
  have le: "count_list ?v w \<le> count_list ?v m" for w
    using count_le_max [of ?v w] cnt by simp
  have least: "m \<le> w" if "count_list ?v w = count_list ?v m" for w
  proof -
    have "0 < count_list ?v m" using mem by (rule count_list_pos)
    with that have "w \<in> set ?v" by (metis count_list_0_iff less_irrefl)
    with that cnt have "w \<in> set (mode xs)" by (simp add: mode_set)
    moreover have "sorted (m # ms)" using mode_sorted [of xs] ms by simp
    ultimately show ?thesis using ms by auto
  qed
  from fm mem le least show ?thesis by blast
qed

lemma fillna_nth:
  "k < length xs \<Longrightarrow> fillna xs v ! k = (case xs ! k of None \<Rightarrow> v | Some y \<Rightarrow> Some y)"
  by (simp add: fillna_def)

lemma example_first_mode: "first_mode [Some ''a'', Some ''a'', Some ''b'', None] = Some ''a''"
  by (simp add: first_mode_def mode_def present_def List.map_filter_simps Let_def)

lemma mode_table_empty_iff:
  "mode_table_empty data \<longleftrightarrow> (\<forall>(n, xs)\<in>set (categorical_part data). present xs = [])"
  by (auto simp: mode_table_empty_def list_all_iff mode_empty_iff)

lemma categorical_part_map_categorical:
  "categorical_part (map_categorical f d) = map (\<lambda>(n, xs). (n, f xs)) (categorical_part d)"
  by (induction d)
    (auto simp: map_categorical_def categorical_part_def List.map_filter_simps split: column.splits)

text \<open>C3: in the pipeline, the categorical filling runs on the frame the imputation
  returns, whose categorical columns are those of the input. When it returns, every
  categorical column \<open>xs\<close> has become \<open>fillna xs (first_mode xs)\<close> and no other column
  has changed: a cell that is not missing keeps its value and a missing cell takes the
  first mode of its column. The stage returns as soon as some categorical column has a
  value. For a column with a value the first mode is one of its values, no value occurs
  more often, and it is the least of the values that occur as often. For the column
  a, a, b, missing the first mode is a, and the missing cell becomes a.\<close>

theorem fill_stage_fills_with_first_mode:
  assumes "distinct (map fst data)" "impute_stage est data = Inr d1"
  shows "(\<forall>d2. fill_stage d1 = Inr d2 \<longrightarrow>
            d2 = map_categorical (\<lambda>xs. fillna xs (first_mode xs)) d1
            \<and> categorical_part d2
                = map (\<lambda>(n, xs). (n, fillna xs (first_mode xs))) (categorical_part data))
         \<and> (\<not> mode_table_empty data \<longrightarrow> (\<exists>d2. fill_stage d1 = Inr d2))
         \<and> (\<forall>xs v k. k < length xs \<longrightarrow>
               fillna xs v ! k = (case xs ! k of None \<Rightarrow> v | Some y \<Rightarrow> Some y))
         \<and> (\<forall>xs. present xs \<noteq> [] \<longrightarrow>
               (\<exists>m. first_mode xs = Some m \<and> m \<in> set (present xs)
                  \<and> (\<forall>w. count_list (present xs) w \<le> count_list (present xs) m)
                  \<and> (\<forall>w. count_list (present xs) w = count_list (present xs) m \<longrightarrow> m \<le> w)))
         \<and> first_mode [Some ''a'', Some ''a'', Some ''b'', None] = Some ''a''
         \<and> fillna [Some ''a'', Some ''a'', Some ''b'', None]
              (first_mode [Some ''a'', Some ''a'', Some ''b'', None])
             = [Some ''a'', Some ''a'', Some ''b'', Some ''a'']"
proof -
  have d1: "distinct (map fst d1)" using impute_stage_labels(1) [OF assms] assms(1) by simp
  have cat: "categorical_part d1 = categorical_part data" by (rule impute_stage_labels(3) [OF assms])
  have a: "d2 = map_categorical (\<lambda>xs. fillna xs (first_mode xs)) d1
            \<and> categorical_part d2
                = map (\<lambda>(n, xs). (n, fillna xs (first_mode xs))) (categorical_part data)"
    if "fill_stage d1 = Inr d2" for d2
  proof -
    from that have "d2 = map_categorical (\<lambda>xs. fillna xs (first_mode xs)) d1"
      by (simp add: fill_stage_eq [OF d1] split: if_splits)
    then show ?thesis using cat by (simp add: categorical_part_map_categorical)
  qed
  have b: "\<exists>d2. fill_stage d1 = Inr d2" if "\<not> mode_table_empty data"
    using that cat by (simp add: fill_stage_eq [OF d1] mode_table_empty_def)
  have c: "fillna [Some ''a'', Some ''a'', Some ''b'', None]
              (first_mode [Some ''a'', Some ''a'', Some ''b'', None])
             = [Some ''a'', Some ''a'', Some ''b'', Some ''a'']"
    unfolding example_first_mode by (simp add: fillna_def)
  from a b c fillna_nth first_mode_is_mode example_first_mode show ?thesis by blast
qed

lemma sample_first_mode:
  "first_mode [Some ''a'', Some ''a'', Some ''b'', None, Some ''b''] = Some ''a''"
  by (simp add: first_mode_def sample_mode)

theorem fill_stage_fills_with_first_mode_witness:
  "distinct (map fst sample) \<and> impute_stage zero_estimate sample = Inr sample
   \<and> fill_stage sample = Inr sample_filled
   \<and> sample_filled = map_categorical (\<lambda>xs. fillna xs (first_mode xs)) sample
   \<and> categorical_part sample_filled
       = [(''c'', [Some ''a'', Some ''a'', Some ''b'', Some ''a'', Some ''b''])]
   \<and> \<not> mode_table_empty sample"
proof -
  have d: "distinct (map fst sample)" by (simp add: sample_def)
  from fill_stage_fills_with_first_mode [OF d sample_impute [of zero_estimate]] sample_fill
  have "sample_filled = map_categorical (\<lambda>xs. fillna xs (first_mode xs)) sample" by blast
  moreover have "categorical_part sample_filled
       = [(''c'', [Some ''a'', Some ''a'', Some ''b'', Some ''a'', Some ''b''])]"
    by (simp add: sample_filled_def categorical_part_def List.map_filter_simps)
  moreover have "\<not> mode_table_empty sample"
    by (simp add: mode_table_empty_def sample_def categorical_part_def List.map_filter_simps
        sample_mode)
  ultimately show ?thesis using d sample_impute [of zero_estimate] sample_fill by simp
qed

text \<open>C9, as stated, fails: a frame without numeric columns never reaches the
  categorical filling, because the imputation before it raises \<open>ValueError\<close>.\<close>

theorem empty_mode_table_not_always_fill_step:
  "mode_table_empty flags_only
   \<and> impute_stage zero_estimate flags_only = Inl ValueError
   \<and> data_preprocessing_pipeline zero_estimate flags_only = Inl ValueError
   \<and> data_preprocessing_pipeline zero_estimate flags_only \<noteq> Inl IndexError"
  by (simp add: mode_table_empty_def flags_only_def categorical_part_def numeric_part_def
      List.map_filter_simps data_preprocessing_pipeline_def impute_stage_def
      handle_missing_values_def knn_fit_transform_def)

text \<open>C9, amended: when the mode table of the categorical columns is empty, as it is
  when there is no categorical column and when every categorical column is entirely
  missing, the pipeline never returns a frame. If the imputation, which runs first,
  returns, the categorical filling raises \<open>IndexError\<close> and so does the pipeline;
  otherwise the pipeline raises the error of the imputation.\<close>

theorem empty_mode_table_raises:
  assumes "distinct (map fst data)" "mode_table_empty data"
  shows "(\<forall>d1. impute_stage est data = Inr d1 \<longrightarrow>
            fill_stage d1 = Inl IndexError
            \<and> data_preprocessing_pipeline est data = Inl IndexError)
         \<and> (\<forall>e. impute_stage est data = Inl e \<longrightarrow> data_preprocessing_pipeline est data = Inl e)
         \<and> (\<forall>out. data_preprocessing_pipeline est data \<noteq> Inr out)"
proof -
  have a: "fill_stage d1 = Inl IndexError
            \<and> data_preprocessing_pipeline est data = Inl IndexError"
    if ok: "impute_stage est data = Inr d1" for d1
  proof -
    have d1: "distinct (map fst d1)" using impute_stage_labels(1) [OF assms(1) ok] assms(1) by simp
    have "categorical_part d1 = categorical_part data"
      by (rule impute_stage_labels(3) [OF assms(1) ok])
    with assms(2) have "fill_stage d1 = Inl IndexError"
      by (simp add: fill_stage_eq [OF d1] mode_table_empty_def)
    with ok show ?thesis by (simp add: data_preprocessing_pipeline_def)
  qed
  have b: "data_preprocessing_pipeline est data = Inl e" if "impute_stage est data = Inl e" for e
    using that by (simp add: data_preprocessing_pipeline_def)
  have c: "data_preprocessing_pipeline est data \<noteq> Inr out" for out
    using a b by (cases "impute_stage est data") auto
  from a b c show ?thesis by blast
qed

theorem empty_mode_table_raises_witness:
  "distinct (map fst numbers_only) \<and> mode_table_empty numbers_only
   \<and> impute_stage zero_estimate numbers_only = Inr numbers_only
   \<and> fill_stage numbers_only = Inl IndexError
   \<and> data_preprocessing_pipeline zero_estimate numbers_only = Inl IndexError
   \<and> distinct (map fst all_missing) \<and> mode_table_empty all_missing
   \<and> impute_stage zero_estimate all_missing
       = Inr [(''x'', NumCol [Some 1, Some 0]), (''c'', ObjCol [None, None])]
   \<and> data_preprocessing_pipeline zero_estimate all_missing = Inl IndexError"
proof -
  have d: "distinct (map fst numbers_only)" by (simp add: numbers_only_def)
  have m: "mode_table_empty numbers_only"
    by (simp add: mode_table_empty_def numbers_only_def categorical_part_def List.map_filter_simps)
  have i: "impute_stage zero_estimate numbers_only = Inr numbers_only"
    by (simp add: impute_stage_def numbers_only_def numeric_part_def List.map_filter_simps
      handle_missing_values_def knn_fit_transform_def present_def as_frame_def assign_cols_def
      set_col_def enumerate_eq_zip upt_rec)
  have d': "distinct (map fst all_missing)" by (simp add: all_missing_def)
  have m': "mode_table_empty all_missing"
    by (simp add: mode_table_empty_def all_missing_def categorical_part_def List.map_filter_simps
        mode_def present_def)
  have i': "impute_stage zero_estimate all_missing
       = Inr [(''x'', NumCol [Some 1, Some 0]), (''c'', ObjCol [None, None])]"
    by (simp add: impute_stage_def all_missing_def numeric_part_def List.map_filter_simps
      handle_missing_values_def knn_fit_transform_def present_def as_frame_def assign_cols_def
      set_col_def enumerate_eq_zip upt_rec zero_estimate_def)
  from empty_mode_table_raises [OF d m, of zero_estimate] i
  have "fill_stage numbers_only = Inl IndexError
        \<and> data_preprocessing_pipeline zero_estimate numbers_only = Inl IndexError" by blast
  moreover from empty_mode_table_raises [OF d' m', of zero_estimate] i'
  have "data_preprocessing_pipeline zero_estimate all_missing = Inl IndexError" by blast
  ultimately show ?thesis using d m i d' m' i' by simp
qed

section \<open>The standalone outlier filter\<close>











lemma zip_as_map: "length c = length m \<Longrightarrow> zip c m = map (\<lambda>i. (c ! i, m ! i)) [0..<length c]"
  by (rule nth_equalityI) auto

lemma drop_col_eq:
  assumes "length c = length m"
  shows "map fst (filter (\<lambda>(x, b). \<not> b) (zip c m))
         = map ((!) c) (filter (\<lambda>i. \<not> m ! i) [0..<length c])"
  unfolding zip_as_map [OF assms] filter_map by (simp add: comp_def)

lemma rows_of_drop_rows:
  assumes "rectangular data" "length m = nrows data"
  shows "rows_of (drop_rows data m)
         = map (row_at data) (filter (\<lambda>i. \<not> m ! i) [0..<nrows data])"
proof (cases data)
  case Nil
  then show ?thesis by (simp add: rows_of_def drop_rows_def nrows_def)
next
  case (Cons a rest)
  let ?ks = "filter (\<lambda>i. \<not> m ! i) [0..<nrows data]"
  have len: "length c = length m" if "(n, c) \<in> set data" for n c
    using assms that by (auto simp: rectangular_def list_all_iff)
  have dr: "drop_rows data m = map (\<lambda>(n, c). (n, map ((!) c) ?ks)) data"
    unfolding drop_rows_def
  proof (rule map_cong [OF refl])
    fix p assume p: "p \<in> set data"
    obtain n c where nc: "p = (n, c)" by (cases p)
    from len [of n c] p nc have l: "length c = length m" by simp
    show "(case p of (n, c) \<Rightarrow> (n, map fst (filter (\<lambda>(x, b). \<not> b) (zip c m))))
        = (case p of (n, c) \<Rightarrow> (n, map ((!) c) ?ks))"
      using drop_col_eq [OF l] l assms(2) nc by simp
  qed
  have nr: "nrows (drop_rows data m) = length ?ks"
    unfolding dr using Cons by (cases a) (simp add: nrows_def)
  have "rows_of (drop_rows data m)
        = map (\<lambda>i. map (\<lambda>(n, c). c ! i) (map (\<lambda>(n, c). (n, map ((!) c) ?ks)) data)) [0..<length ?ks]"
    unfolding rows_of_def nr unfolding dr ..
  also have "\<dots> = map (\<lambda>i. row_at data (?ks ! i)) [0..<length ?ks]"
    by (rule map_cong [OF refl]) (auto simp: row_at_def)
  also have "\<dots> = map (row_at data) (map ((!) ?ks) [0..<length ?ks])"
    by simp
  also have "\<dots> = map (row_at data) ?ks" by (simp only: map_nth)
  finally show ?thesis .
qed

lemma rows_of_row_at: "rows_of data = map (row_at data) [0..<nrows data]"
  by (simp add: rows_of_def row_at_def)

lemma fst_drop_rows: "map fst (drop_rows data m) = map fst data"
  by (induction data) (auto simp: drop_rows_def)






lemma nrows_flags:
  "nrows (frame_or (frame_less data s) (frame_greater data s')) = nrows data"
  by (cases data) (auto simp: nrows_def frame_or_def frame_less_def frame_greater_def)

lemma handle_outliers_iqr_drop:
  "\<exists>m. handle_outliers_iqr data th = drop_rows data m \<and> length m = nrows data"
proof -
  define lower_bound where "lower_bound =
    series_op (-) (frame_quantile data (25 / 100))
      (series_scale th (series_op (-) (frame_quantile data (75 / 100))
         (frame_quantile data (25 / 100))))"
  define upper_bound where "upper_bound =
    series_op (+) (frame_quantile data (75 / 100))
      (series_scale th (series_op (-) (frame_quantile data (75 / 100))
         (frame_quantile data (25 / 100))))"
  define m where
    "m = any_axis1 (frame_or (frame_less data lower_bound) (frame_greater data upper_bound))"
  have "handle_outliers_iqr data th = drop_rows data m"
    unfolding handle_outliers_iqr_def Let_def m_def lower_bound_def upper_bound_def ..
  moreover have "length m = nrows data"
    by (simp add: m_def any_axis1_def nrows_flags)
  ultimately show ?thesis by blast
qed

lemma subseq_drop_col: "subseq (map fst (filter P (zip c m))) c"
proof -
  have "subseq (map fst (filter P (zip c m))) (map fst (zip c m))"
    by (intro subseq_map subseq_filter_left)
  also have "map fst (zip c m) = take (length m) c"
    by (cases "length c \<le> length m") (simp_all add: map_fst_zip_take min_def)
  also have "subseq (take (length m) c) c"
    by (intro prefix_imp_subseq take_is_prefix)
  finally show ?thesis .
qed

lemma length_drop_col:
  "length c = length c0 \<Longrightarrow>
   length (filter (\<lambda>(x, b). \<not> b) (zip c m)) = length (filter (\<lambda>(x, b). \<not> b) (zip c0 m))"
proof (induction c c0 arbitrary: m rule: list_induct2)
  case Nil
  then show ?case by simp
next
  case (Cons x xs y ys)
  then show ?case by (cases m) auto
qed

lemma rectangular_drop_rows:
  assumes "rectangular data"
  shows "rectangular (drop_rows data m)"
proof (cases data)
  case Nil
  then show ?thesis by (simp add: rectangular_def drop_rows_def)
next
  case (Cons a rest)
  obtain n0 c0 where a: "a = (n0, c0)" by (cases a)
  have nr: "nrows (drop_rows data m) = length (filter (\<lambda>(x, b). \<not> b) (zip c0 m))"
    using Cons a by (simp add: nrows_def drop_rows_def)
  have "length (snd p) = nrows (drop_rows data m)" if p: "p \<in> set (drop_rows data m)" for p
  proof -
    from p obtain n c where nc: "(n, c) \<in> set data"
      and pp: "p = (n, map fst (filter (\<lambda>(x, b). \<not> b) (zip c m)))"
      by (auto simp: drop_rows_def)
    from assms nc Cons a have "length c = length c0"
      by (auto simp: rectangular_def list_all_iff nrows_def)
    from length_drop_col [OF this, of m] pp nr show ?thesis by simp
  qed
  then show ?thesis by (auto simp: rectangular_def list_all_iff)
qed

text \<open>C10: the filter keeps the labels and the columns of a frame of numeric columns
  of one length, and only drops rows: the rows of the result are rows of the input, with
  their values, in their order, and every column of the result is the column of the
  input with some cells left out.\<close>

theorem handle_outliers_iqr_only_drops_rows:
  assumes "rectangular data"
  shows "subseq (rows_of (handle_outliers_iqr data th)) (rows_of data)
         \<and> map fst (handle_outliers_iqr data th) = map fst data
         \<and> (\<forall>j<length data. subseq (snd (handle_outliers_iqr data th ! j)) (snd (data ! j)))
         \<and> rectangular (handle_outliers_iqr data th)"
proof -
  from handle_outliers_iqr_drop [of data th] obtain m where
    eq: "handle_outliers_iqr data th = drop_rows data m" and len: "length m = nrows data"
    by blast
  have "rows_of (drop_rows data m) = map (row_at data) (filter (\<lambda>i. \<not> m ! i) [0..<nrows data])"
    by (rule rows_of_drop_rows [OF assms len])
  moreover have "subseq (map (row_at data) (filter (\<lambda>i. \<not> m ! i) [0..<nrows data]))
                   (map (row_at data) [0..<nrows data])"
    by (intro subseq_map subseq_filter_left)
  ultimately have "subseq (rows_of (handle_outliers_iqr data th)) (rows_of data)"
    by (simp add: eq rows_of_row_at)
  moreover have "map fst (handle_outliers_iqr data th) = map fst data"
    unfolding eq by (rule fst_drop_rows)
  moreover have "subseq (snd (handle_outliers_iqr data th ! j)) (snd (data ! j))"
    if "j < length data" for j
    using that unfolding eq drop_rows_def by (simp add: case_prod_unfold subseq_drop_col)
  moreover have "rectangular (handle_outliers_iqr data th)"
    unfolding eq by (rule rectangular_drop_rows [OF assms])
  ultimately show ?thesis by blast
qed

theorem handle_outliers_iqr_only_drops_rows_witness:
  "rectangular readings
   \<and> subseq (rows_of (handle_outliers_iqr readings (15 / 10)))
       [[Some 1, Some 10], [Some 2, Some 20], [Some 3, Some 30], [Some 100, Some 40],
        [Some 4, Some 50]]
   \<and> map fst (handle_outliers_iqr readings (15 / 10)) = [''x'', ''y'']"
proof -
  have r: "rectangular readings" by (simp add: rectangular_def readings_def nrows_def)
  have "rows_of readings = [[Some 1, Some 10], [Some 2, Some 20], [Some 3, Some 30],
        [Some 100, Some 40], [Some 4, Some 50]]"
    by (simp add: rows_of_def readings_def nrows_def upt_rec)
  moreover have "map fst readings = [''x'', ''y'']" by (simp add: readings_def)
  ultimately show ?thesis
    using handle_outliers_iqr_only_drops_rows [OF r, of "15 / 10"] r by simp
qed

section \<open>Standardization\<close>


lemma present_Some: "present (map Some v) = v"
  by (induction v) (auto simp: present_def List.map_filter_simps)

















section \<open>Quantiles under a rescaling\<close>







lemma replace_outliers_in_bounds: "in_bounds xs \<Longrightarrow> replace_outliers xs = xs"
  unfolding replace_outliers_eq in_bounds_def
  by (intro map_idI) (simp add: list_all_iff)

section \<open>Clean input\<close>

lemma filled_from_complete: "complete xs \<Longrightarrow> filled_from xs ys \<Longrightarrow> ys = xs"
proof -
  assume c: "complete xs" and f: "filled_from xs ys"
  from f have "list_all2 (\<lambda>x y. y \<noteq> None \<and> (x \<noteq> None \<longrightarrow> y = x)) xs ys"
    by (simp add: filled_from_def)
  then show ?thesis using c
    by (induction rule: list_all2_induct) (auto simp: complete_def)
qed



lemma complete_nonempty_present: "complete xs \<Longrightarrow> xs \<noteq> [] \<Longrightarrow> present xs \<noteq> []"
  by (cases xs) (auto simp: complete_def present_def List.map_filter_simps)



lemma map_numeric_id:
  assumes "\<And>n xs. (n, xs) \<in> set (numeric_part d) \<Longrightarrow> f xs = xs"
  shows "map_numeric f d = d"
proof -
  have "map_numeric f d = map id d"
    unfolding map_numeric_def
  proof (rule map_cong [OF refl])
    fix p assume p: "p \<in> set d"
    obtain n c where nc: "p = (n, c)" by (cases p)
    show "(case p of (n, c) \<Rightarrow> (n, case c of NumCol xs \<Rightarrow> NumCol (f xs) | _ \<Rightarrow> c)) = id p"
      using p nc assms [of n] by (cases c) (auto simp: set_numeric_part)
  qed
  then show ?thesis by simp
qed

lemma clean_numeric_iff:
  "clean_numeric data \<longleftrightarrow> (\<forall>(n, xs)\<in>set (numeric_part data). complete xs \<and> in_bounds xs)"
  by (simp add: clean_numeric_def list_all_iff)

lemma impute_stage_clean:
  assumes dist: "distinct (map fst data)" and clean: "clean_numeric data"
    and ok: "impute_stage est data = Inr d1"
  shows "d1 = data"
proof -
  from impute_stage_Inr [OF dist ok] obtain g where
    d1: "d1 = map (\<lambda>(n, c). (n, case c of NumCol xs \<Rightarrow> NumCol (g n xs) | _ \<Rightarrow> c)) data"
    and g: "\<And>n xs. (n, NumCol xs) \<in> set data \<Longrightarrow> filled_from xs (g n xs)"
    by blast
  have "map (\<lambda>(n, c). (n, case c of NumCol xs \<Rightarrow> NumCol (g n xs) | _ \<Rightarrow> c)) data = map id data"
  proof (rule map_cong [OF refl])
    fix p assume p: "p \<in> set data"
    obtain n c where nc: "p = (n, c)" by (cases p)
    show "(case p of (n, c) \<Rightarrow> (n, case c of NumCol xs \<Rightarrow> NumCol (g n xs) | _ \<Rightarrow> c)) = id p"
    proof (cases c)
      case (NumCol xs)
      with p nc have mem: "(n, NumCol xs) \<in> set data" by simp
      then have "complete xs" using clean by (auto simp: clean_numeric_iff set_numeric_part)
      with g [OF mem] have "g n xs = xs" by (rule filled_from_complete [rotated])
      with nc NumCol show ?thesis by simp
    qed (simp_all add: nc)
  qed
  with d1 show ?thesis by simp
qed

lemma outlier_loop_clean:
  assumes dist: "distinct (map fst data)" and clean: "clean_numeric data"
    and fill: "fill_stage data = Inr d2"
  shows "outlier_loop (numeric_features data) d2 = d2" "numeric_part d2 = numeric_part data"
proof -
  have d2: "distinct (map fst d2)" using fill_stage_labels(1) [OF dist fill] dist by simp
  show np: "numeric_part d2 = numeric_part data" by (rule fill_stage_labels(3) [OF dist fill])
  have "numeric_features data = numeric_features d2"
    using fill_stage_labels(2) [OF dist fill] by simp
  then have "outlier_loop (numeric_features data) d2 = map_numeric replace_outliers d2"
    using outlier_loop_numeric [OF d2] by simp
  also have "\<dots> = d2"
  proof (rule map_numeric_id)
    fix n xs assume "(n, xs) \<in> set (numeric_part d2)"
    then have "in_bounds xs" using clean np by (auto simp: clean_numeric_iff)
    then show "replace_outliers xs = xs" by (rule replace_outliers_in_bounds)
  qed
  finally show "outlier_loop (numeric_features data) d2 = d2" .
qed

text \<open>C4: on a frame with unique labels whose numeric columns have no missing cell
  and no cell out of bounds, the imputation returns the frame itself whenever it returns,
  and it returns when there is a numeric column and no numeric column is empty; the
  outlier loop then returns the frame it is given, whose numeric columns are those of the
  input. So the numeric columns of the frame the pipeline returns are the standardized
  numeric columns of the input.\<close>

theorem clean_input_only_standardized:
  assumes "distinct (map fst data)" "clean_numeric data"
  shows "(\<forall>d1. impute_stage est data = Inr d1 \<longrightarrow> d1 = data)
         \<and> (numeric_part data \<noteq> [] \<and> (\<forall>(n, xs)\<in>set (numeric_part data). xs \<noteq> [])
              \<longrightarrow> impute_stage est data = Inr data)
         \<and> (\<forall>d2. fill_stage data = Inr d2 \<longrightarrow>
               outlier_loop (numeric_features data) d2 = d2
               \<and> numeric_part d2 = numeric_part data)
         \<and> (\<forall>out. data_preprocessing_pipeline est data = Inr out \<longrightarrow>
               numeric_part out = map (\<lambda>(n, xs). (n, scale_col xs)) (numeric_part data))"
proof -
  have a: "d1 = data" if "impute_stage est data = Inr d1" for d1
    using impute_stage_clean [OF assms that] .
  have b: "impute_stage est data = Inr data"
    if "numeric_part data \<noteq> [] \<and> (\<forall>(n, xs)\<in>set (numeric_part data). xs \<noteq> [])"
  proof (rule impute_stage_complete [OF assms(1)])
    show "numeric_part data \<noteq> []" using that by simp
    show "\<forall>(n, xs)\<in>set (numeric_part data). xs \<noteq> [] \<and> complete xs"
      using that assms(2) by (auto simp: clean_numeric_iff)
  qed
  have c: "outlier_loop (numeric_features data) d2 = d2 \<and> numeric_part d2 = numeric_part data"
    if "fill_stage data = Inr d2" for d2
    using outlier_loop_clean [OF assms that] by simp
  have d: "numeric_part out = map (\<lambda>(n, xs). (n, scale_col xs)) (numeric_part data)"
    if run: "data_preprocessing_pipeline est data = Inr out" for out
  proof -
    from run obtain d1 d2 where i: "impute_stage est data = Inr d1"
      and f: "fill_stage d1 = Inr d2"
      and s: "scale_stage (outlier_loop (numeric_features data) d2) = Inr out"
      by (auto simp: data_preprocessing_pipeline_def split: sum.splits)
    from a [OF i] f have f': "fill_stage data = Inr d2" by simp
    from c [OF f'] s have s': "scale_stage d2 = Inr out" and np: "numeric_part d2 = numeric_part data"
      by simp_all
    have "distinct (map fst d2)" using fill_stage_labels(1) [OF assms(1) f'] assms(1) by simp
    from s' have "out = map_numeric scale_col d2"
      by (simp add: scale_stage_eq [OF \<open>distinct (map fst d2)\<close>] split: if_splits)
    then show ?thesis by (simp add: numeric_part_map_numeric np)
  qed
  from a b c d show ?thesis by blast
qed

lemma tidy_bounds:
  "iqr_lower [Some 1, Some 3, Some 1, Some 3] (15 / 10) = Some (- 2)"
  "iqr_upper [Some 1, Some 3, Some 1, Some 3] (15 / 10) = Some 6"
  by (simp_all add: iqr_lower_def iqr_upper_def quantile_def present_def List.map_filter_simps
      Let_def nan_lift2_def)

lemma tidy_clean: "clean_numeric tidy"
  unfolding clean_numeric_def tidy_def numeric_part_def in_bounds_def out_of_bounds_def
    List.map_filter_simps list.pred_inject case_prod_conv column.case option.case tidy_bounds
  by (simp add: complete_def nan_less_def)

lemma tidy_distinct: "distinct (map fst tidy)"
  by (simp add: tidy_def)

lemma tidy_impute: "impute_stage est tidy = Inr tidy"
  by (simp add: impute_stage_def tidy_def numeric_part_def List.map_filter_simps
      handle_missing_values_def knn_fit_transform_def present_def as_frame_def assign_cols_def
      set_col_def enumerate_eq_zip upt_rec)

lemma tidy_fill: "fill_stage tidy = Inr tidy"
  by (simp add: fill_stage_def tidy_def categorical_part_def List.map_filter_simps
      mode_iloc0_def first_mode_def mode_def present_def Let_def fillna_frame_def fillna_def
      as_frame_def assign_cols_def set_col_def)

lemma tidy_scale_col:
  "scale_col [Some 1, Some 3, Some 1, Some 3] = [Some (- 1), Some 1, Some (- 1), Some 1]"
  by (simp add: scale_col_def mean_def std_def variance_def present_def List.map_filter_simps
      Let_def power2_eq_square)

lemma tidy_numeric_part:
  "numeric_part tidy = [(''x'', [Some 1, Some 3, Some 1, Some 3])]"
  "numeric_part tidy_scaled = [(''x'', [Some (- 1), Some 1, Some (- 1), Some 1])]"
  by (simp_all add: tidy_def tidy_scaled_def numeric_part_def List.map_filter_simps)

lemma tidy_scale: "scale_stage tidy = Inr tidy_scaled"
  by (simp add: scale_stage_eq [OF tidy_distinct] tidy_numeric_part)
    (simp add: map_numeric_def tidy_def tidy_scaled_def tidy_scale_col)

theorem clean_input_only_standardized_witness:
  "distinct (map fst tidy) \<and> clean_numeric tidy
   \<and> impute_stage zero_estimate tidy = Inr tidy
   \<and> fill_stage tidy = Inr tidy
   \<and> outlier_loop (numeric_features tidy) tidy = tidy
   \<and> data_preprocessing_pipeline zero_estimate tidy = Inr tidy_scaled
   \<and> numeric_part tidy_scaled = [(''x'', [Some (- 1), Some 1, Some (- 1), Some 1])]"
proof -
  from clean_input_only_standardized [OF tidy_distinct tidy_clean, of zero_estimate] tidy_fill
  have o: "outlier_loop (numeric_features tidy) tidy = tidy" by blast
  then have "data_preprocessing_pipeline zero_estimate tidy = Inr tidy_scaled"
    by (simp add: data_preprocessing_pipeline_def tidy_impute tidy_fill tidy_scale)
  with o show ?thesis
    using tidy_distinct tidy_clean tidy_impute [of zero_estimate] tidy_fill tidy_numeric_part(2)
    by simp
qed

section \<open>The standardized output\<close>






section \<open>Running the pipeline on its own output\<close>










end
